theory Spec2Isabelle
  imports Main "HOL-Library.Word"
begin

unbundle bit_operations_syntax

section \<open>The MFRC522 driver on the Pico: bus model\<close>

text \<open>
  The program of \<^verbatim>\<open>pico_MFRC522.c\<close> talks to the reader chip through the Pico SDK:
  GPIO writes, blocking SPI writes and reads, delays and console output.  The SDK is not
  part of the repository, so each SDK call is an event appended to a trace, oldest first.
  The only input of the program is what \<^verbatim>\<open>spi_read_blocking\<close> delivers: the bytes
  the device puts on MISO.  They are the sequence \<open>miso\<close>, indexed by the number of bytes
  read so far (\<open>rdn\<close>); an arbitrary device is an arbitrary sequence.
\<close>

text \<open>
  In the events, a pin is its GPIO number; \<open>GpioSetDir pin True\<close> is \<^verbatim>\<open>GPIO_OUT\<close>,
  \<open>GpioPut pin True\<close> drives the pin high, \<open>SpiSetFormat spi bits cpol cpha True\<close> is
  \<^verbatim>\<open>SPI_MSB_FIRST\<close>, \<open>SpiWrite spi bs\<close> is one blocking write of the bytes \<open>bs\<close> and
  \<open>SpiRead spi tx bs\<close> one blocking read that sent \<open>tx\<close> for every byte and received
  \<open>bs\<close>.
\<close>

type_synonym u8 = "8 word"

datatype spi_inst = spi0 | spi1

datatype gpio_function = GPIO_FUNC_SPI

datatype event =
    GpioInit nat
  | GpioSetDir nat bool
  | GpioPut nat bool
  | GpioSetFunction nat gpio_function
  | StdioInitAll
  | SpiInit spi_inst nat
  | SpiSetFormat spi_inst nat nat nat bool
  | SleepMs nat
  | Printf string "int list"
  | Nop3
  | SpiWrite spi_inst "u8 list"
  | SpiRead spi_inst u8 "u8 list"

record world =
  trace :: "event list"
  miso :: "nat \<Rightarrow> u8"
  rdn :: nat

definition emit :: "event \<Rightarrow> world \<Rightarrow> world" where
  "emit e w = w\<lparr>trace := trace w @ [e]\<rparr>"

subsection \<open>SDK calls\<close>

definition gpio_init :: "nat \<Rightarrow> world \<Rightarrow> world" where
  "gpio_init pin w = emit (GpioInit pin) w"

definition gpio_set_dir :: "nat \<Rightarrow> bool \<Rightarrow> world \<Rightarrow> world" where
  "gpio_set_dir pin out w = emit (GpioSetDir pin out) w"

definition gpio_put :: "nat \<Rightarrow> bool \<Rightarrow> world \<Rightarrow> world" where
  "gpio_put pin v w = emit (GpioPut pin v) w"

definition gpio_set_function :: "nat \<Rightarrow> gpio_function \<Rightarrow> world \<Rightarrow> world" where
  "gpio_set_function pin fn w = emit (GpioSetFunction pin fn) w"

definition stdio_init_all :: "world \<Rightarrow> world" where
  "stdio_init_all w = emit StdioInitAll w"

definition spi_init :: "spi_inst \<Rightarrow> nat \<Rightarrow> world \<Rightarrow> world" where
  "spi_init spi baud w = emit (SpiInit spi baud) w"

definition spi_set_format :: "spi_inst \<Rightarrow> nat \<Rightarrow> nat \<Rightarrow> nat \<Rightarrow> bool \<Rightarrow> world \<Rightarrow> world" where
  "spi_set_format spi bits cpol cpha msb_first w = emit (SpiSetFormat spi bits cpol cpha msb_first) w"

definition sleep_ms :: "nat \<Rightarrow> world \<Rightarrow> world" where
  "sleep_ms ms w = emit (SleepMs ms) w"

text \<open>\<^verbatim>\<open>printf\<close>: the format string and the values of its arguments.\<close>

definition printf :: "string \<Rightarrow> int list \<Rightarrow> world \<Rightarrow> world" where
  "printf fmt args w = emit (Printf fmt args) w"

text \<open>The line ending \<^verbatim>\<open>\n\r\<close> of every message of the program.\<close>

definition nl_cr :: string where
  "nl_cr = [CHR 0x0A, CHR 0x0D]"

text \<open>\<^verbatim>\<open>asm volatile("nop \n nop \n nop")\<close>: the settling delay.\<close>

definition nop3 :: "world \<Rightarrow> world" where
  "nop3 w = emit Nop3 w"

text \<open>\<^verbatim>\<open>spi_write_blocking(spi, src, len)\<close> sends the \<open>len\<close> bytes of \<open>src\<close> and
  discards what comes back.\<close>

definition spi_write_blocking :: "spi_inst \<Rightarrow> u8 list \<Rightarrow> nat \<Rightarrow> world \<Rightarrow> world" where
  "spi_write_blocking spi src len w = emit (SpiWrite spi (take len src)) w"

text \<open>\<^verbatim>\<open>spi_read_blocking(spi, tx, dst, len)\<close> sends \<open>tx\<close> \<open>len\<close> times and returns
  the \<open>len\<close> bytes received, the next \<open>len\<close> bytes of \<open>miso\<close>.\<close>

definition spi_read_blocking :: "spi_inst \<Rightarrow> u8 \<Rightarrow> nat \<Rightarrow> world \<Rightarrow> u8 list \<times> world" where
  "spi_read_blocking spi tx len w =
     (let bs = map (\<lambda>i. miso w (rdn w + i)) [0..<len]
      in (bs, emit (SpiRead spi tx bs) (w\<lparr>rdn := rdn w + len\<rparr>)))"

section \<open>pico_MFRC522.c\<close>

definition LED_PIN :: nat where "LED_PIN = 25"
definition RESET_PIN :: nat where "RESET_PIN = 20"

definition PROGMEM :: "u8 list" where
  "PROGMEM = [
    0x00, 0xEB, 0x66, 0xBA, 0x57, 0xBF, 0x23, 0x95,
    0xD0, 0xE3, 0x0D, 0x3D, 0x27, 0x89, 0x5C, 0xDE,
    0x9D, 0x3B, 0xA7, 0x00, 0x21, 0x5B, 0x89, 0x82,
    0x51, 0x3A, 0xEB, 0x02, 0x0C, 0xA5, 0x00, 0x49,
    0x7C, 0x84, 0x4D, 0xB3, 0xCC, 0xD2, 0x1B, 0x81,
    0x5D, 0x48, 0x76, 0xD5, 0x71, 0x61, 0x21, 0xA9,
    0x86, 0x96, 0x83, 0x38, 0xCF, 0x9D, 0x5B, 0x6D,
    0xDC, 0x15, 0xBA, 0x3E, 0x7D, 0x95, 0x3B, 0x2F]"

subsection \<open>Registers and commands\<close>

definition CommandReg :: u8 where "CommandReg = push_bit 1 0x01"
definition FIFODataReg :: u8 where "FIFODataReg = push_bit 1 0x09"
definition FIFOLevelReg :: u8 where "FIFOLevelReg = push_bit 1 0x0A"
definition AutoTestReg :: u8 where "AutoTestReg = push_bit 1 0x36"
definition VersionReg :: u8 where "VersionReg = push_bit 1 0x37"

definition SoftReset :: u8 where "SoftReset = 0x0F"
definition Mem :: u8 where "Mem = 0x01"
definition EnableSelfTest :: u8 where "EnableSelfTest = 0x09"
definition CalcCRC :: u8 where "CalcCRC = 0x03"

subsection \<open>Chip select and register access\<close>

definition cs_select :: "nat \<Rightarrow> world \<Rightarrow> world" where
  "cs_select cs w =
     (let w = nop3 w;
          w = gpio_put cs False w
      in nop3 w)"

definition cs_deselect :: "nat \<Rightarrow> world \<Rightarrow> world" where
  "cs_deselect cs w =
     (let w = nop3 w;
          w = gpio_put cs True w
      in nop3 w)"

definition reg_write :: "spi_inst \<Rightarrow> nat \<Rightarrow> u8 \<Rightarrow> u8 \<Rightarrow> world \<Rightarrow> world" where
  "reg_write spi cs reg data w =
     (let msg = [0x00 OR reg, data];
          w = cs_select cs w;
          w = spi_write_blocking spi msg 2 w
      in cs_deselect cs w)"

text \<open>\<open>buf\<close> is the byte the caller's pointer refers to: its old value comes in, its new
  value goes out.\<close>

definition reg_read :: "spi_inst \<Rightarrow> nat \<Rightarrow> u8 \<Rightarrow> u8 \<Rightarrow> world \<Rightarrow> u8 \<times> world" where
  "reg_read spi cs reg buf w =
     (let msg = 0x80 OR reg;
          w = cs_select cs w;
          w = spi_write_blocking spi [msg] 1 w;
          (bs, w) = spi_read_blocking spi 0 1 w;
          buf = (case bs of [] \<Rightarrow> buf | b # _ \<Rightarrow> b);
          w = cs_deselect cs w
      in (buf, w))"

subsection \<open>The loops of \<open>self_test\<close>\<close>

text \<open>\<^verbatim>\<open>for (int i = 0; i < 25; i++) reg_write(spi0, cs_pin, FIFODataReg, 0x00);\<close>\<close>

function self_test_fill :: "nat \<Rightarrow> nat \<Rightarrow> world \<Rightarrow> world" where
  "self_test_fill i cs_pin w =
     (if i < 25 then self_test_fill (i + 1) cs_pin (reg_write spi0 cs_pin FIFODataReg 0x00 w)
      else w)"
  by pat_completeness auto
termination
  by (relation "measure (\<lambda>(i, cs_pin, w). 25 - i)") auto

declare self_test_fill.simps [simp del]

text \<open>The wait for completion: \<^verbatim>\<open>while (!self_test_complete) { ... }\<close>.  The loop has
  no bound, so the result is \<open>None\<close> when it never ends.\<close>

partial_function (option) self_test_wait :: "bool \<Rightarrow> nat \<Rightarrow> world \<Rightarrow> world option" where
  "self_test_wait self_test_complete cs_pin w =
     (if \<not> self_test_complete then
        (let buf = 0;
             (buf, w) = reg_read spi0 cs_pin FIFOLevelReg buf w
         in self_test_wait (if 64 \<le> buf then True else self_test_complete) cs_pin w)
      else Some w)"

text \<open>\<^verbatim>\<open>for (int i = 0; i < 64; i++) { uint8_t buf = 0; reg_read(...); result[i] = buf; }\<close>\<close>

function self_test_drain :: "nat \<Rightarrow> nat \<Rightarrow> u8 list \<Rightarrow> world \<Rightarrow> u8 list \<times> world" where
  "self_test_drain i cs_pin result w =
     (if i < 64 then
        (let buf = 0;
             (buf, w) = reg_read spi0 cs_pin FIFODataReg buf w
         in self_test_drain (i + 1) cs_pin (result[i := buf]) w)
      else (result, w))"
  by pat_completeness auto
termination
  by (relation "measure (\<lambda>(i, cs_pin, result, w). 64 - i)") auto

declare self_test_drain.simps [simp del]

text \<open>The dump of the result: \<^verbatim>\<open>printf("%x, ", result[i]); if (i % 10 == 0) printf("\n\r");\<close>\<close>

function self_test_dump :: "nat \<Rightarrow> u8 list \<Rightarrow> world \<Rightarrow> world" where
  "self_test_dump i result w =
     (if i < 64 then
        (let w = printf ''%x, '' [uint (result ! i)] w;
             w = (if i mod 10 = 0 then printf nl_cr [] w else w)
         in self_test_dump (i + 1) result w)
      else w)"
  by pat_completeness auto
termination
  by (relation "measure (\<lambda>(i, result, w). 64 - i)") auto

declare self_test_dump.simps [simp del]

text \<open>The comparison with the stored vector.  The function returns \<^verbatim>\<open>uint8_t\<close>, so
  \<^verbatim>\<open>return -1\<close> converts the int \<open>-1\<close> to a byte.\<close>

function self_test_compare :: "nat \<Rightarrow> u8 list \<Rightarrow> u8" where
  "self_test_compare i result =
     (if i < 64 then
        (if result ! i \<noteq> PROGMEM ! i then word_of_int (- 1)
         else self_test_compare (i + 1) result)
      else 0)"
  by pat_completeness auto
termination
  by (relation "measure (\<lambda>(i, result). 64 - i)") auto

declare self_test_compare.simps [simp del]

subsection \<open>\<open>self_test\<close>\<close>

text \<open>\<^verbatim>\<open>uint8_t result[64]\<close> is not initialised; every cell is assigned by the drain
  loop before it is read.  The model starts it as 64 zero bytes.\<close>

definition self_test :: "nat \<Rightarrow> nat \<Rightarrow> nat \<Rightarrow> nat \<Rightarrow> world \<Rightarrow> (u8 \<times> world) option" where
  "self_test cs_pin sck_pin mosi_pin miso_pin w =
     (let w = reg_write spi0 cs_pin CommandReg SoftReset w;
          w = sleep_ms 50 w;
          w = printf (''Soft reset complete'' @ nl_cr) [] w;
          w = reg_write spi0 cs_pin FIFOLevelReg 0x80 w;
          w = self_test_fill 0 cs_pin w;
          w = reg_write spi0 cs_pin CommandReg Mem w;
          w = printf (''Clearing of internal buffer complete'' @ nl_cr) [] w;
          w = reg_write spi0 cs_pin AutoTestReg EnableSelfTest w;
          w = printf (''Self test enable complete'' @ nl_cr) [] w;
          w = reg_write spi0 cs_pin FIFODataReg 0x00 w;
          w = printf (''Written 0x00 to FIFO buffer'' @ nl_cr) [] w;
          w = reg_write spi0 cs_pin CommandReg CalcCRC w;
          w = printf (''Started self test with the CRC command'' @ nl_cr) [] w
      in case self_test_wait False cs_pin w of
           None \<Rightarrow> None
         | Some w \<Rightarrow>
            (let w = printf (''Self test completed'' @ nl_cr) [] w;
                 (result, w) = self_test_drain 0 cs_pin (replicate 64 0) w;
                 w = printf (''Bytes copied to result array'' @ nl_cr) [] w;
                 w = reg_write spi0 cs_pin AutoTestReg 0x00 w;
                 w = printf (''Disabled self test'' @ nl_cr) [] w;
                 w = printf (''Self test result:'' @ nl_cr) [] w;
                 w = self_test_dump 0 result w;
                 w = printf nl_cr [] w
             in Some (self_test_compare 0 result, w)))"

subsection \<open>\<open>main\<close>\<close>

text \<open>\<open>main\<close> up to its last \<^verbatim>\<open>printf\<close>; after it the program idles in
  \<^verbatim>\<open>while (true) sleep_ms(1000)\<close> and never returns.  The value is the byte
  \<open>self_test\<close> returned and the world on entering the idle loop, \<open>None\<close> when
  \<open>self_test\<close> does not return.  \<^verbatim>\<open>char\<close> is unsigned on the Pico's ARM ABI, so
  \<^verbatim>\<open>test_result\<close> prints as the byte's unsigned value.\<close>

definition main_to_idle :: "world \<Rightarrow> (u8 \<times> world) option" where
  "main_to_idle w =
     (let w = gpio_init LED_PIN w;
          w = gpio_init RESET_PIN w;
          w = gpio_set_dir LED_PIN True w;
          w = gpio_set_dir RESET_PIN True w;
          cs_pin = 17;
          sck_pin = 18;
          mosi_pin = 19;
          miso_pin = 16;
          w = stdio_init_all w;
          w = gpio_put RESET_PIN False w;
          w = sleep_ms 1000 w;
          w = gpio_put RESET_PIN True w;
          w = gpio_init cs_pin w;
          w = gpio_set_dir cs_pin True w;
          w = gpio_put cs_pin True w;
          w = spi_init spi0 1000000 w;
          w = spi_set_format spi0 8 0 0 True w;
          w = gpio_set_function sck_pin GPIO_FUNC_SPI w;
          w = gpio_set_function mosi_pin GPIO_FUNC_SPI w;
          w = gpio_set_function miso_pin GPIO_FUNC_SPI w;
          w = sleep_ms 5000 w;
          w = printf (''Test Started'' @ nl_cr) [] w;
          w = reg_write spi0 cs_pin CommandReg SoftReset w;
          w = sleep_ms 50 w;
          version = 0x0A;
          (version, w) = reg_read spi0 cs_pin VersionReg version w;
          w = printf (''Version: %x'' @ nl_cr) [uint version] w
      in case self_test cs_pin sck_pin mosi_pin miso_pin w of
           None \<Rightarrow> None
         | Some (test_result, w) \<Rightarrow>
             Some (test_result, printf (''Test Result: %d'' @ nl_cr) [uint test_result] w))"

section \<open>example.c\<close>

definition tag1 :: "u8 list" where
  "tag1 = [0x93, 0xE3, 0x9A, 0x92]"

text \<open>\<^verbatim>\<open>memcmp(s1, s2, n)\<close> of the C library compares the first \<open>n\<close> bytes as unsigned
  values: 0 when they agree, otherwise a value with the sign of the first difference.
  Reading past the end of an array is undefined in C: \<open>None\<close>.\<close>

fun memcmp :: "u8 list \<Rightarrow> u8 list \<Rightarrow> nat \<Rightarrow> int option" where
  "memcmp s1 s2 0 = Some 0"
| "memcmp (a # s1) (b # s2) (Suc n) =
     (if a = b then memcmp s1 s2 n else Some (uint a - uint b))"
| "memcmp s1 s2 (Suc n) = None"

text \<open>The authorization step of the card loop of \<open>main\<close>.  \<open>uidByte\<close> is the array
  \<^verbatim>\<open>mfrc->uid.uidByte\<close> that the card layer filled; its type is declared in
  \<^verbatim>\<open>mfrc522.h\<close>, so its length is a parameter here.\<close>

definition uid_check :: "u8 list \<Rightarrow> world \<Rightarrow> world option" where
  "uid_check uidByte w =
     (case memcmp uidByte tag1 4 of
        None \<Rightarrow> None
      | Some c \<Rightarrow>
          Some (if c = 0 then printf (''Authentication Success'' @ nl_cr) [] w
                else printf (''Authentication Failed'' @ nl_cr) [] w))"

section \<open>Observing the bus\<close>

text \<open>
  The definitions of this section are not code of the driver.  They are the vocabulary of
  the statements: what a frame on the bus looks like, which events are transfers, a monitor
  for the chip-select discipline, and closed forms of the traces, which the lemmas below
  prove equal to what the code produces.
\<close>

text \<open>The events of one register write and of one register read that returns \<open>b\<close>.\<close>

definition write_frame :: "spi_inst \<Rightarrow> nat \<Rightarrow> u8 \<Rightarrow> u8 \<Rightarrow> event list" where
  "write_frame spi cs hdr d =
     [Nop3, GpioPut cs False, Nop3, SpiWrite spi [hdr, d], Nop3, GpioPut cs True, Nop3]"

definition read_frame :: "spi_inst \<Rightarrow> nat \<Rightarrow> u8 \<Rightarrow> u8 \<Rightarrow> event list" where
  "read_frame spi cs hdr b =
     [Nop3, GpioPut cs False, Nop3, SpiWrite spi [hdr], SpiRead spi 0 [b],
      Nop3, GpioPut cs True, Nop3]"

text \<open>The bus transfers of a trace, everything else dropped.\<close>

fun is_transfer :: "event \<Rightarrow> bool" where
  "is_transfer (SpiWrite spi bs) = True"
| "is_transfer (SpiRead spi tx bs) = True"
| "is_transfer e = False"

definition transfers :: "event list \<Rightarrow> event list" where
  "transfers es = filter is_transfer es"

text \<open>The transfers of one register read returning \<open>b\<close>.\<close>

definition read_xfer :: "u8 \<Rightarrow> u8 \<Rightarrow> event list" where
  "read_xfer reg b = [SpiWrite spi0 [0x80 OR reg], SpiRead spi0 0 [b]]"

text \<open>
  A monitor for the chip-select discipline on pin \<open>cs\<close>.  From \<open>Idle\<close> (line high) a
  transaction is: delay, line low, delay, then either one 2-byte write or a 1-byte write
  followed by a 1-byte read, then delay, line high, delay, back to \<open>Idle\<close>.  Delays and
  console output are accepted between transactions only; every other event is refused.
\<close>

datatype cs_phase = Idle | SelNop | SelLow | Ready | ReadHeader | Done | DeselNop | DeselHigh

fun cs_step :: "nat \<Rightarrow> cs_phase \<Rightarrow> event \<Rightarrow> cs_phase option" where
  "cs_step cs Idle Nop3 = Some SelNop"
| "cs_step cs Idle (SleepMs ms) = Some Idle"
| "cs_step cs Idle (Printf fmt args) = Some Idle"
| "cs_step cs SelNop (GpioPut p v) = (if p = cs \<and> \<not> v then Some SelLow else None)"
| "cs_step cs SelLow Nop3 = Some Ready"
| "cs_step cs Ready (SpiWrite spi bs) =
     (if length bs = 2 then Some Done else if length bs = 1 then Some ReadHeader else None)"
| "cs_step cs ReadHeader (SpiRead spi tx bs) = (if length bs = 1 then Some Done else None)"
| "cs_step cs Done Nop3 = Some DeselNop"
| "cs_step cs DeselNop (GpioPut p v) = (if p = cs \<and> v then Some DeselHigh else None)"
| "cs_step cs DeselHigh Nop3 = Some Idle"
| "cs_step cs ph e = None"

fun cs_run :: "nat \<Rightarrow> cs_phase \<Rightarrow> event list \<Rightarrow> cs_phase option" where
  "cs_run cs ph [] = Some ph"
| "cs_run cs ph (e # es) =
     (case cs_step cs ph e of None \<Rightarrow> None | Some ph' \<Rightarrow> cs_run cs ph' es)"

text \<open>Directly: no transfer while the line \<open>cs\<close> is high.  \<open>level\<close> is the level of the
  line before the first event.\<close>

fun selected_transfers :: "nat \<Rightarrow> bool \<Rightarrow> event list \<Rightarrow> bool" where
  "selected_transfers cs level [] = True"
| "selected_transfers cs level (GpioPut p v # es) =
     selected_transfers cs (if p = cs then v else level) es"
| "selected_transfers cs level (SpiWrite spi bs # es) =
     (\<not> level \<and> selected_transfers cs level es)"
| "selected_transfers cs level (SpiRead spi tx bs # es) =
     (\<not> level \<and> selected_transfers cs level es)"
| "selected_transfers cs level (e # es) = selected_transfers cs level es"

text \<open>The level of the line \<open>cs\<close> in each phase of the monitor.\<close>

fun line_high :: "cs_phase \<Rightarrow> bool" where
  "line_high Idle = True"
| "line_high SelNop = True"
| "line_high SelLow = False"
| "line_high Ready = False"
| "line_high ReadHeader = False"
| "line_high Done = False"
| "line_high DeselNop = False"
| "line_high DeselHigh = True"

text \<open>The world after \<open>n\<close> passes of the wait loop: \<open>n\<close> reads of the FIFO level
  register.\<close>

definition polls :: "nat \<Rightarrow> nat \<Rightarrow> world \<Rightarrow> world" where
  "polls n cs w =
     w\<lparr>trace := trace w @
          concat (map (\<lambda>i. read_frame spi0 cs (0x80 OR FIFOLevelReg) (miso w (rdn w + i))) [0..<n]),
       rdn := rdn w + n\<rparr>"

text \<open>The events of \<open>self_test\<close> before the wait loop.\<close>

definition arm_events :: "nat \<Rightarrow> event list" where
  "arm_events cs =
     write_frame spi0 cs CommandReg SoftReset @
     [SleepMs 50, Printf (''Soft reset complete'' @ nl_cr) []] @
     write_frame spi0 cs FIFOLevelReg 0x80 @
     concat (replicate 25 (write_frame spi0 cs FIFODataReg 0x00)) @
     write_frame spi0 cs CommandReg Mem @
     [Printf (''Clearing of internal buffer complete'' @ nl_cr) []] @
     write_frame spi0 cs AutoTestReg EnableSelfTest @
     [Printf (''Self test enable complete'' @ nl_cr) []] @
     write_frame spi0 cs FIFODataReg 0x00 @
     [Printf (''Written 0x00 to FIFO buffer'' @ nl_cr) []] @
     write_frame spi0 cs CommandReg CalcCRC @
     [Printf (''Started self test with the CRC command'' @ nl_cr) []]"

text \<open>The 64 bytes that the drain loop reads in a run from world \<open>w\<close> whose wait loop
  took \<open>k + 1\<close> reads.\<close>

definition drained :: "nat \<Rightarrow> world \<Rightarrow> u8 list" where
  "drained k w = map (\<lambda>j. miso w (rdn w + Suc k + j)) [0..<64]"

text \<open>All events of such a run of \<open>self_test\<close>.\<close>

definition self_test_events :: "nat \<Rightarrow> nat \<Rightarrow> world \<Rightarrow> event list" where
  "self_test_events cs k w =
     arm_events cs @
     concat (map (\<lambda>i. read_frame spi0 cs (0x80 OR FIFOLevelReg) (miso w (rdn w + i))) [0..<Suc k]) @
     [Printf (''Self test completed'' @ nl_cr) []] @
     concat (map (\<lambda>j. read_frame spi0 cs (0x80 OR FIFODataReg) (miso w (rdn w + Suc k + j))) [0..<64]) @
     [Printf (''Bytes copied to result array'' @ nl_cr) []] @
     write_frame spi0 cs AutoTestReg 0x00 @
     [Printf (''Disabled self test'' @ nl_cr) [], Printf (''Self test result:'' @ nl_cr) []] @
     concat (map (\<lambda>j. Printf ''%x, '' [uint (drained k w ! j)] #
                       (if j mod 10 = 0 then [Printf nl_cr []] else [])) [0..<64]) @
     [Printf nl_cr []]"

text \<open>The events of \<open>main\<close> before its first register access: the set-up of the
  pins and of the SPI peripheral.  The chip-select pin 17 is driven high in it.\<close>

definition main_init_events :: "event list" where
  "main_init_events =
     [GpioInit LED_PIN, GpioInit RESET_PIN, GpioSetDir LED_PIN True, GpioSetDir RESET_PIN True,
      StdioInitAll, GpioPut RESET_PIN False, SleepMs 1000, GpioPut RESET_PIN True,
      GpioInit 17, GpioSetDir 17 True, GpioPut 17 True,
      SpiInit spi0 1000000, SpiSetFormat spi0 8 0 0 True,
      GpioSetFunction 18 GPIO_FUNC_SPI, GpioSetFunction 19 GPIO_FUNC_SPI,
      GpioSetFunction 16 GPIO_FUNC_SPI,
      SleepMs 5000, Printf (''Test Started'' @ nl_cr) []]"

text \<open>The register map of the driver: every register constant of the source, paired with
  its logical address, the left operand of the shift in its declaration.\<close>

definition register_map :: "(u8 \<times> u8) list" where
  "register_map =
     [(0x01, CommandReg), (0x09, FIFODataReg), (0x0A, FIFOLevelReg),
      (0x36, AutoTestReg), (0x37, VersionReg)]"

text \<open>A device for concrete runs: it answers the reads with the bytes \<open>bs\<close>, then
  with zeros.\<close>

definition device :: "u8 list \<Rightarrow> world" where
  "device bs = \<lparr>trace = [], miso = (\<lambda>n. if n < length bs then bs ! n else 0), rdn = 0\<rparr>"

section \<open>The SDK calls and the register accesses as trace extensions\<close>

lemma reg_write_eq:
  "reg_write spi cs reg d w = w\<lparr>trace := trace w @ write_frame spi cs reg d\<rparr>"
  by (simp add: reg_write_def cs_select_def cs_deselect_def spi_write_blocking_def
      nop3_def gpio_put_def emit_def write_frame_def)

lemma reg_read_eq:
  "reg_read spi cs reg buf w =
     (miso w (rdn w),
      w\<lparr>trace := trace w @ read_frame spi cs (0x80 OR reg) (miso w (rdn w)), rdn := Suc (rdn w)\<rparr>)"
  by (simp add: reg_read_def cs_select_def cs_deselect_def spi_write_blocking_def
      spi_read_blocking_def nop3_def gpio_put_def emit_def read_frame_def Let_def)

lemma printf_eq: "printf fmt args w = w\<lparr>trace := trace w @ [Printf fmt args]\<rparr>"
  by (simp add: printf_def emit_def)

lemma sleep_ms_eq: "sleep_ms ms w = w\<lparr>trace := trace w @ [SleepMs ms]\<rparr>"
  by (simp add: sleep_ms_def emit_def)

lemma self_test_fill_eq:
  "self_test_fill i cs w =
     w\<lparr>trace := trace w @ concat (replicate (25 - i) (write_frame spi0 cs FIFODataReg 0))\<rparr>"
proof (induction i cs w rule: self_test_fill.induct)
  case (1 i cs w)
  show ?case
  proof (cases "i < 25")
    case True
    then have "25 - i = Suc (25 - (i + 1))" by simp
    with True 1 show ?thesis
      by (simp add: reg_write_eq self_test_fill.simps [of i])
  next
    case False
    then show ?thesis by (simp add: self_test_fill.simps [of i])
  qed
qed

lemma self_test_dump_eq:
  "self_test_dump i result w =
     w\<lparr>trace := trace w @
        concat (map (\<lambda>j. Printf ''%x, '' [uint (result ! j)] #
                          (if j mod 10 = 0 then [Printf nl_cr []] else [])) [i..<64])\<rparr>"
proof (induction i result w rule: self_test_dump.induct)
  case (1 i result w)
  show ?case
  proof (cases "i < 64")
    case True
    then have "[i..<64] = i # [i + 1..<64]" by (simp add: upt_conv_Cons)
    with True 1 show ?thesis
      by (simp add: printf_eq Let_def self_test_dump.simps [of i])
  next
    case False
    then show ?thesis by (simp add: self_test_dump.simps [of i])
  qed
qed

lemma self_test_compare_eq:
  "self_test_compare i result =
     (if \<forall>j. i \<le> j \<and> j < 64 \<longrightarrow> result ! j = PROGMEM ! j then 0 else 255)"
proof (induction i result rule: self_test_compare.induct)
  case (1 i result)
  show ?case
  proof (cases "i < 64")
    case True
    note lt = this
    show ?thesis
    proof (cases "result ! i = PROGMEM ! i")
      case True
      have "(\<forall>j. i \<le> j \<and> j < 64 \<longrightarrow> result ! j = PROGMEM ! j)
          = (\<forall>j. i + 1 \<le> j \<and> j < 64 \<longrightarrow> result ! j = PROGMEM ! j)"
        using True by (metis Suc_eq_plus1 Suc_leI le_neq_implies_less Suc_leD)
      with lt True 1 show ?thesis
        by (simp add: self_test_compare.simps [of i])
    next
      case False
      with lt show ?thesis
        by (auto simp add: self_test_compare.simps [of i])
    qed
  next
    case False
    then show ?thesis by (auto simp add: self_test_compare.simps [of i])
  qed
qed


lemma self_test_drain_eq:
  "i \<le> 64 \<Longrightarrow> length result = 64 \<Longrightarrow>
   self_test_drain i cs result w =
     (take i result @ map (\<lambda>j. miso w (rdn w + j)) [0..<64 - i],
      w\<lparr>trace := trace w @
           concat (map (\<lambda>j. read_frame spi0 cs (0x80 OR FIFODataReg) (miso w (rdn w + j))) [0..<64 - i]),
        rdn := rdn w + (64 - i)\<rparr>)"
proof (induction i cs result w rule: self_test_drain.induct)
  case (1 i cs result w)
  show ?case
  proof (cases "i < 64")
    case True
    let ?b = "miso w (rdn w)"
    let ?w1 = "w\<lparr>trace := trace w @ read_frame spi0 cs (0x80 OR FIFODataReg) ?b, rdn := Suc (rdn w)\<rparr>"
    have rr: "reg_read spi0 cs FIFODataReg 0 w = (?b, ?w1)" by (simp add: reg_read_eq)
    have n: "64 - i = Suc (64 - (i + 1))" using True by simp
    have ih: "self_test_drain (i + 1) cs (result[i := ?b]) ?w1 =
        (take (i + 1) (result[i := ?b]) @ map (\<lambda>j. miso ?w1 (rdn ?w1 + j)) [0..<64 - (i + 1)],
         ?w1\<lparr>trace := trace ?w1 @
           concat (map (\<lambda>j. read_frame spi0 cs (0x80 OR FIFODataReg) (miso ?w1 (rdn ?w1 + j))) [0..<64 - (i + 1)]),
           rdn := rdn ?w1 + (64 - (i + 1))\<rparr>)"
      using True 1(3) by (intro 1(1) [OF True refl rr [symmetric]]) simp_all
    have tk: "take (i + 1) (result[i := ?b]) = take i result @ [?b]"
      using True 1(3) by (simp add: take_Suc_conv_app_nth)
    have "self_test_drain i cs result w = self_test_drain (i + 1) cs (result[i := ?b]) ?w1"
      using True by (subst self_test_drain.simps) (simp add: rr)
    also note ih
    finally show ?thesis
      unfolding tk n by (simp add: map_upt_Suc del: upt_Suc)
  next
    case False
    with 1(2,3) show ?thesis by (subst self_test_drain.simps) simp
  qed
qed


section \<open>The wait loop\<close>

lemma polls_Suc:
  "polls (Suc n) cs w = polls n cs (snd (reg_read spi0 cs FIFOLevelReg 0 w))"
  by (simp add: polls_def reg_read_eq map_upt_Suc del: upt_Suc)

lemma self_test_wait_True: "self_test_wait True cs w = Some w"
  by (subst self_test_wait.simps) simp

lemma self_test_wait_False:
  "self_test_wait False cs w =
     self_test_wait (64 \<le> miso w (rdn w)) cs (snd (reg_read spi0 cs FIFOLevelReg 0 w))"
  by (subst self_test_wait.simps) (simp add: reg_read_eq)

lemma self_test_wait_Some:
  "(\<forall>i<k. miso w (rdn w + i) < 64) \<Longrightarrow> 64 \<le> miso w (rdn w + k) \<Longrightarrow>
   self_test_wait False cs w = Some (polls (Suc k) cs w)"
proof (induction k arbitrary: w)
  case 0
  then show ?case
    by (simp add: self_test_wait_False self_test_wait_True polls_Suc) (simp add: polls_def)
next
  case (Suc k)
  let ?w1 = "snd (reg_read spi0 cs FIFOLevelReg 0 w)"
  from Suc.prems(1) have lt0: "miso w (rdn w) < 64" by (metis add.right_neutral zero_less_Suc)
  have "\<forall>i<k. miso ?w1 (rdn ?w1 + i) < 64"
    using Suc.prems(1) by (auto simp: reg_read_eq)
  moreover have "64 \<le> miso ?w1 (rdn ?w1 + k)"
    using Suc.prems(2) by (simp add: reg_read_eq)
  ultimately have "self_test_wait False cs ?w1 = Some (polls (Suc k) cs ?w1)"
    by (rule Suc.IH)
  moreover from lt0 have "\<not> 64 \<le> miso w (rdn w)" by simp
  ultimately show ?case
    by (simp only: self_test_wait_False [of cs w] polls_Suc [of "Suc k"] if_False)
qed

lemma self_test_wait_returns:
  "self_test_wait c cs w = Some w' \<Longrightarrow> c \<or> (\<exists>k. 64 \<le> miso w (rdn w + k))"
proof (induction c cs w w' rule: self_test_wait.raw_induct [rotated 1, consumes 1, case_names step])
  case (step self_test_wait c cs w w')
  note 1 = step.IH step.hyps
  show ?case
  proof (cases c)
    case True
    then show ?thesis by simp
  next
    case False
    let ?w1 = "snd (reg_read spi0 cs FIFOLevelReg 0 w)"
    from 1(2) False
    have "self_test_wait (64 \<le> miso w (rdn w)) cs ?w1 = Some w'"
      by (cases "64 \<le> miso w (rdn w)") (simp_all add: reg_read_eq)
    from 1(1) [OF this] have "64 \<le> miso w (rdn w) \<or> (\<exists>k. 64 \<le> miso w (Suc (rdn w + k)))"
      by (simp add: reg_read_eq)
    then consider "64 \<le> miso w (rdn w)" | "\<exists>k. 64 \<le> miso w (Suc (rdn w + k))"
      by blast
    then show ?thesis
    proof cases
      case 1
      then have "64 \<le> miso w (rdn w + 0)" by simp
      then show ?thesis by blast
    next
      case 2
      then obtain k where "64 \<le> miso w (rdn w + Suc k)" by auto
      then show ?thesis by blast
    qed
  qed
qed

lemma first_reach:
  fixes f :: "nat \<Rightarrow> u8"
  assumes "64 \<le> f n"
  shows "\<exists>k. (\<forall>i<k. f i < 64) \<and> 64 \<le> f k"
proof -
  let ?k = "LEAST k. 64 \<le> f k"
  have "64 \<le> f ?k" using assms by (rule LeastI)
  moreover have "\<forall>i<?k. f i < 64"
    using not_less_Least [of _ "\<lambda>k. 64 \<le> f k"] by (auto simp: not_le)
  ultimately show ?thesis by blast
qed

lemma first_reach_unique:
  fixes f :: "nat \<Rightarrow> u8"
  assumes "\<forall>i<k. f i < 64" "64 \<le> f k" "\<forall>i<k'. f i < 64" "64 \<le> f k'"
  shows "k = k'"
proof (rule ccontr)
  assume "k \<noteq> k'"
  then consider "k < k'" | "k' < k" by (auto simp: neq_iff)
  then show False
  proof cases
    case 1
    with assms(3) have "f k < 64" by simp
    with assms(2) show False by simp
  next
    case 2
    with assms(1) have "f k' < 64" by simp
    with assms(4) show False by simp
  qed
qed

lemma self_test_wait_iff:
  "self_test_wait False cs w = Some w' \<longleftrightarrow>
     (\<exists>k. (\<forall>i<k. miso w (rdn w + i) < 64) \<and> 64 \<le> miso w (rdn w + k) \<and> w' = polls (Suc k) cs w)"
proof
  assume a: "self_test_wait False cs w = Some w'"
  from self_test_wait_returns [OF a] obtain n where "64 \<le> miso w (rdn w + n)" by auto
  from first_reach [of "\<lambda>i. miso w (rdn w + i)", OF this]
  obtain k where k: "\<forall>i<k. miso w (rdn w + i) < 64" "64 \<le> miso w (rdn w + k)" by auto
  from self_test_wait_Some [OF k] a have "w' = polls (Suc k) cs w" by simp
  with k show "\<exists>k. (\<forall>i<k. miso w (rdn w + i) < 64) \<and> 64 \<le> miso w (rdn w + k) \<and> w' = polls (Suc k) cs w"
    by blast
next
  assume "\<exists>k. (\<forall>i<k. miso w (rdn w + i) < 64) \<and> 64 \<le> miso w (rdn w + k) \<and> w' = polls (Suc k) cs w"
  then show "self_test_wait False cs w = Some w'"
    using self_test_wait_Some by blast
qed

lemma self_test_wait_None_iff:
  "self_test_wait False cs w = None \<longleftrightarrow> (\<forall>n. miso w (rdn w + n) < 64)"
proof
  assume a: "self_test_wait False cs w = None"
  show "\<forall>n. miso w (rdn w + n) < 64"
  proof (rule ccontr)
    assume "\<not> (\<forall>n. miso w (rdn w + n) < 64)"
    then obtain n where "64 \<le> miso w (rdn w + n)" by (auto simp: not_less)
    from first_reach [of "\<lambda>i. miso w (rdn w + i)", OF this]
    obtain k where k: "\<forall>i<k. miso w (rdn w + i) < 64" "64 \<le> miso w (rdn w + k)" by auto
    from self_test_wait_Some [OF k] a show False by simp
  qed
next
  assume a: "\<forall>n. miso w (rdn w + n) < 64"
  show "self_test_wait False cs w = None"
  proof (cases "self_test_wait False cs w")
    case None
    then show ?thesis .
  next
    case (Some w')
    from self_test_wait_returns [OF Some] a show ?thesis by (auto simp: not_le [symmetric])
  qed
qed




section \<open>\<open>self_test\<close> as a function of the bytes read\<close>

lemma self_test_armed:
  "self_test cs sck mosi misop w =
     (case self_test_wait False cs (w\<lparr>trace := trace w @ arm_events cs\<rparr>) of
        None \<Rightarrow> None
      | Some w2 \<Rightarrow>
          Some (self_test_compare 0 (map (\<lambda>j. miso w2 (rdn w2 + j)) [0..<64]),
                w2\<lparr>trace := trace w2 @
                    [Printf (''Self test completed'' @ nl_cr) []] @
                    concat (map (\<lambda>j. read_frame spi0 cs (0x80 OR FIFODataReg) (miso w2 (rdn w2 + j))) [0..<64]) @
                    [Printf (''Bytes copied to result array'' @ nl_cr) []] @
                    write_frame spi0 cs AutoTestReg 0x00 @
                    [Printf (''Disabled self test'' @ nl_cr) [], Printf (''Self test result:'' @ nl_cr) []] @
                    concat (map (\<lambda>j. Printf ''%x, '' [uint (map (\<lambda>j. miso w2 (rdn w2 + j)) [0..<64] ! j)] #
                       (if j mod 10 = 0 then [Printf nl_cr []] else [])) [0..<64]) @
                    [Printf nl_cr []],
                  rdn := rdn w2 + 64\<rparr>))"
  by (simp add: self_test_def Let_def reg_write_eq printf_eq sleep_ms_eq self_test_fill_eq
      self_test_drain_eq self_test_dump_eq arm_events_def split: option.split
      del: upt_Suc upt_rec_numeral)


lemma self_test_run:
  assumes "\<forall>i<k. miso w (rdn w + i) < 64" and "64 \<le> miso w (rdn w + k)"
  shows "self_test cs sck mosi misop w =
           Some (self_test_compare 0 (drained k w),
                 w\<lparr>trace := trace w @ self_test_events cs k w, rdn := rdn w + k + 65\<rparr>)"
proof -
  let ?w1 = "w\<lparr>trace := trace w @ arm_events cs\<rparr>"
  have "self_test_wait False cs ?w1 = Some (polls (Suc k) cs ?w1)"
    by (rule self_test_wait_Some) (simp_all add: assms)
  then show ?thesis
    by (simp add: self_test_armed polls_def self_test_events_def drained_def
        del: upt_Suc upt_rec_numeral)
qed

lemma self_test_None_iff:
  "self_test cs sck mosi misop w = None \<longleftrightarrow> (\<forall>n. miso w (rdn w + n) < 64)"
proof -
  let ?w1 = "w\<lparr>trace := trace w @ arm_events cs\<rparr>"
  have "self_test cs sck mosi misop w = None \<longleftrightarrow> self_test_wait False cs ?w1 = None"
    by (simp add: self_test_armed split: option.split)
  also have "\<dots> \<longleftrightarrow> (\<forall>n. miso w (rdn w + n) < 64)"
    by (simp add: self_test_wait_None_iff)
  finally show ?thesis .
qed

lemma self_test_Some_iff:
  "self_test cs sck mosi misop w = Some (r, w') \<longleftrightarrow>
     (\<exists>k. (\<forall>i<k. miso w (rdn w + i) < 64) \<and> 64 \<le> miso w (rdn w + k) \<and>
          r = self_test_compare 0 (drained k w) \<and>
          w' = w\<lparr>trace := trace w @ self_test_events cs k w, rdn := rdn w + k + 65\<rparr>)"
proof
  assume a: "self_test cs sck mosi misop w = Some (r, w')"
  then have "\<not> (\<forall>n. miso w (rdn w + n) < 64)"
    using self_test_None_iff [of cs sck mosi misop w] by simp
  then obtain n where "64 \<le> miso w (rdn w + n)" by (auto simp: not_less)
  from first_reach [of "\<lambda>i. miso w (rdn w + i)", OF this]
  obtain k where k: "\<forall>i<k. miso w (rdn w + i) < 64" "64 \<le> miso w (rdn w + k)" by auto
  from self_test_run [OF k, of cs sck mosi misop] a
  have "r = self_test_compare 0 (drained k w)"
    and "w' = w\<lparr>trace := trace w @ self_test_events cs k w, rdn := rdn w + k + 65\<rparr>"
    by simp_all
  with k show "\<exists>k. (\<forall>i<k. miso w (rdn w + i) < 64) \<and> 64 \<le> miso w (rdn w + k) \<and>
          r = self_test_compare 0 (drained k w) \<and>
          w' = w\<lparr>trace := trace w @ self_test_events cs k w, rdn := rdn w + k + 65\<rparr>"
    by blast
next
  assume "\<exists>k. (\<forall>i<k. miso w (rdn w + i) < 64) \<and> 64 \<le> miso w (rdn w + k) \<and>
          r = self_test_compare 0 (drained k w) \<and>
          w' = w\<lparr>trace := trace w @ self_test_events cs k w, rdn := rdn w + k + 65\<rparr>"
  then show "self_test cs sck mosi misop w = Some (r, w')"
    using self_test_run by blast
qed


section \<open>Shifted register addresses\<close>

lemma address_mask:
  fixes r :: u8
  assumes "r \<le> 63"
  shows "r AND mask 6 = r"
proof -
  from assms have "r < 2 ^ 6" by (simp add: word_le_nat_alt word_less_nat_alt)
  then show ?thesis by (rule less_mask_eq)
qed

lemma shifted_address:
  fixes r :: u8
  assumes "r \<le> 63"
  shows "push_bit 1 r AND 0xFE = push_bit 1 r"
    and "push_bit 1 r AND 0x7E = push_bit 1 r"
    and "push_bit 1 r AND 0x7F = push_bit 1 r"
    and "\<not> bit (push_bit 1 r) 7"
    and "\<not> bit (push_bit 1 r) 0"
proof -
  note m = address_mask [OF assms]
  have "bit (push_bit 1 r) 7 = (1 \<le> (7::nat) \<and> possible_bit TYPE(u8) 7 \<and> bit r (7 - 1))"
    by (rule bit_push_bit_iff)
  also have "\<dots> = bit (r AND mask 6) 6" by (simp add: m)
  also have "\<dots> = False" by (simp add: bit_and_iff bit_mask_iff)
  finally show "\<not> bit (push_bit 1 r) 7" by simp
  have "bit (push_bit 1 r) 0 = (1 \<le> (0::nat) \<and> possible_bit TYPE(u8) 0 \<and> bit r (0 - 1))"
    by (rule bit_push_bit_iff)
  then show "\<not> bit (push_bit 1 r) 0" by simp
  have e1: "(0x7E :: u8) = push_bit 1 (mask 6)" by (simp add: mask_eq_exp_minus_1)
  have e2: "(0xFE :: u8) = push_bit 1 (mask 7)" by (simp add: mask_eq_exp_minus_1)
  have e3: "(0x7F :: u8) = mask 7" by (simp add: mask_eq_exp_minus_1)
  have m7: "r AND mask 7 = r"
  proof -
    have "r AND mask 7 = (r AND mask 6) AND mask 7" by (simp add: m)
    also have "\<dots> = r AND (mask 6 AND mask 7)" by (simp add: and.assoc)
    also have "mask 6 AND mask 7 = (mask 6 :: u8)" by (simp add: mask_eq_exp_minus_1)
    finally show ?thesis by (simp add: m)
  qed
  show a: "push_bit 1 r AND 0x7E = push_bit 1 r"
    unfolding e1 by (simp only: push_bit_and [symmetric] m)
  show "push_bit 1 r AND 0xFE = push_bit 1 r"
    unfolding e2 by (simp only: push_bit_and [symmetric] m7)
  have c: "(0x7E :: u8) AND 0x7F = 0x7E" by simp
  have "push_bit 1 r AND 0x7F = (push_bit 1 r AND 0x7E) AND 0x7F" by (simp only: a)
  also have "\<dots> = push_bit 1 r AND (0x7E AND 0x7F)" by (simp only: and.assoc)
  also have "\<dots> = push_bit 1 r" by (simp only: c a)
  finally show "push_bit 1 r AND 0x7F = push_bit 1 r" .
qed

lemma register_addresses:
  "CommandReg = push_bit 1 0x01 \<and> FIFODataReg = push_bit 1 0x09 \<and> FIFOLevelReg = push_bit 1 0x0A \<and>
   AutoTestReg = push_bit 1 0x36 \<and> VersionReg = push_bit 1 0x37"
  by (simp add: CommandReg_def FIFODataReg_def FIFOLevelReg_def AutoTestReg_def VersionReg_def)

section \<open>Register frames\<close>

text \<open>
  C3.  \<open>reg_write\<close> sends the register byte it is given as it is; the left shift of the
  logical address is in the register constants of the driver.  For every register \<open>reg\<close>
  of the register map, with logical address \<open>a\<close>: \<open>a\<close> is in 0..63, \<open>reg\<close> is \<open>a\<close> shifted
  left by one, and a write of any data byte \<open>d\<close> to \<open>reg\<close> sends, inside one chip-select
  window, exactly one transfer of the two bytes \<open>[(a << 1) AND 0xFE, d]\<close>.  The same frame
  is sent for the shifted form of every logical address \<open>r\<close> in 0..63, and bit 0 and the
  mode bit (bit 7) of its first byte are clear.
\<close>

theorem reg_write_frame:
  fixes r :: u8
  assumes "r \<le> 63"
  shows "(\<forall>(a, reg) \<in> set register_map.
            a \<le> 63 \<and> reg = push_bit 1 a \<and>
            reg_write spi cs reg d w =
              w\<lparr>trace := trace w @
                 [Nop3, GpioPut cs False, Nop3, SpiWrite spi [push_bit 1 a AND 0xFE, d],
                  Nop3, GpioPut cs True, Nop3]\<rparr> \<and>
            transfers (trace (reg_write spi cs reg d w)) =
              transfers (trace w) @ [SpiWrite spi [push_bit 1 a AND 0xFE, d]] \<and>
            \<not> bit (push_bit 1 a AND 0xFE :: u8) 7 \<and>
            \<not> bit (push_bit 1 a AND 0xFE :: u8) 0) \<and>
         reg_write spi cs (push_bit 1 r) d w =
           w\<lparr>trace := trace w @
              [Nop3, GpioPut cs False, Nop3, SpiWrite spi [push_bit 1 r AND 0xFE, d],
               Nop3, GpioPut cs True, Nop3]\<rparr> \<and>
         transfers (trace (reg_write spi cs (push_bit 1 r) d w)) =
           transfers (trace w) @ [SpiWrite spi [push_bit 1 r AND 0xFE, d]] \<and>
         \<not> bit (push_bit 1 r AND 0xFE :: u8) 7 \<and>
         \<not> bit (push_bit 1 r AND 0xFE :: u8) 0"
proof -
  have g: "reg_write spi cs (push_bit 1 x) d w =
           w\<lparr>trace := trace w @
              [Nop3, GpioPut cs False, Nop3, SpiWrite spi [push_bit 1 x AND 0xFE, d],
               Nop3, GpioPut cs True, Nop3]\<rparr> \<and>
         transfers (trace (reg_write spi cs (push_bit 1 x) d w)) =
           transfers (trace w) @ [SpiWrite spi [push_bit 1 x AND 0xFE, d]] \<and>
         \<not> bit (push_bit 1 x AND 0xFE :: u8) 7 \<and>
         \<not> bit (push_bit 1 x AND 0xFE :: u8) 0" if "x \<le> 63" for x :: u8
    using shifted_address [OF that]
    by (simp add: reg_write_eq write_frame_def transfers_def)
  have "a \<le> 63 \<and> reg = push_bit 1 a \<and>
            reg_write spi cs reg d w =
              w\<lparr>trace := trace w @
                 [Nop3, GpioPut cs False, Nop3, SpiWrite spi [push_bit 1 a AND 0xFE, d],
                  Nop3, GpioPut cs True, Nop3]\<rparr> \<and>
            transfers (trace (reg_write spi cs reg d w)) =
              transfers (trace w) @ [SpiWrite spi [push_bit 1 a AND 0xFE, d]] \<and>
            \<not> bit (push_bit 1 a AND 0xFE :: u8) 7 \<and>
            \<not> bit (push_bit 1 a AND 0xFE :: u8) 0"
    if "(a, reg) \<in> set register_map" for a reg
  proof -
    from that have m: "a \<le> 63" "reg = push_bit 1 a"
      by (auto simp add: register_map_def CommandReg_def FIFODataReg_def FIFOLevelReg_def
          AutoTestReg_def VersionReg_def)
    show ?thesis unfolding m(2) using g [OF m(1)] m(1) by blast
  qed
  with g [OF assms] show ?thesis by blast
qed

theorem reg_write_frame_witness:
  "reg_write spi0 17 CommandReg SoftReset (device []) =
     (device [])\<lparr>trace := [Nop3, GpioPut 17 False, Nop3, SpiWrite spi0 [0x02, 0x0F],
                             Nop3, GpioPut 17 True, Nop3]\<rparr> \<and>
   reg_write spi0 17 AutoTestReg EnableSelfTest (device []) =
     (device [])\<lparr>trace := [Nop3, GpioPut 17 False, Nop3, SpiWrite spi0 [0x6C, 0x09],
                             Nop3, GpioPut 17 True, Nop3]\<rparr> \<and>
   reg_write spi0 17 (push_bit 1 0x3F) 0xFF (device []) =
     (device [])\<lparr>trace := [Nop3, GpioPut 17 False, Nop3, SpiWrite spi0 [0x7E, 0xFF],
                             Nop3, GpioPut 17 True, Nop3]\<rparr>"
proof (intro conjI)
  have le: "(0x3F :: u8) \<le> 63" by simp
  have c: "(0x01, CommandReg) \<in> set register_map" by (simp add: register_map_def)
  have a: "(0x36, AutoTestReg) \<in> set register_map" by (simp add: register_map_def)
  from reg_write_frame [OF le, of spi0 17 SoftReset "device []", THEN conjunct1, THEN bspec, OF c]
  have "reg_write spi0 17 CommandReg SoftReset (device []) =
      (device [])\<lparr>trace := trace (device []) @
         [Nop3, GpioPut 17 False, Nop3, SpiWrite spi0 [push_bit 1 0x01 AND 0xFE, SoftReset],
          Nop3, GpioPut 17 True, Nop3]\<rparr>"
    by (simp only: prod.case)
  then show "reg_write spi0 17 CommandReg SoftReset (device []) =
     (device [])\<lparr>trace := [Nop3, GpioPut 17 False, Nop3, SpiWrite spi0 [0x02, 0x0F],
                             Nop3, GpioPut 17 True, Nop3]\<rparr>"
    by (simp add: device_def SoftReset_def)
  from reg_write_frame [OF le, of spi0 17 EnableSelfTest "device []", THEN conjunct1, THEN bspec, OF a]
  have "reg_write spi0 17 AutoTestReg EnableSelfTest (device []) =
      (device [])\<lparr>trace := trace (device []) @
         [Nop3, GpioPut 17 False, Nop3, SpiWrite spi0 [push_bit 1 0x36 AND 0xFE, EnableSelfTest],
          Nop3, GpioPut 17 True, Nop3]\<rparr>"
    by (simp only: prod.case)
  then show "reg_write spi0 17 AutoTestReg EnableSelfTest (device []) =
     (device [])\<lparr>trace := [Nop3, GpioPut 17 False, Nop3, SpiWrite spi0 [0x6C, 0x09],
                             Nop3, GpioPut 17 True, Nop3]\<rparr>"
    by (simp add: device_def EnableSelfTest_def)
  from reg_write_frame [OF le, of spi0 17 "0xFF" "device []"]
  have "reg_write spi0 17 (push_bit 1 0x3F) 0xFF (device []) =
      (device [])\<lparr>trace := trace (device []) @
         [Nop3, GpioPut 17 False, Nop3, SpiWrite spi0 [push_bit 1 0x3F AND 0xFE, 0xFF],
          Nop3, GpioPut 17 True, Nop3]\<rparr>"
    by (simp only: prod.case)
  then show "reg_write spi0 17 (push_bit 1 0x3F) 0xFF (device []) =
     (device [])\<lparr>trace := [Nop3, GpioPut 17 False, Nop3, SpiWrite spi0 [0x7E, 0xFF],
                             Nop3, GpioPut 17 True, Nop3]\<rparr>"
    by (simp add: device_def)
qed

text \<open>
  C4.  \<open>reg_read\<close> sets the mode bit in the register byte it is given; the left shift of
  the logical address is in the register constants of the driver.  For every register
  \<open>reg\<close> of the register map, with logical address \<open>a\<close> in 0..63, a read of \<open>reg\<close> sends
  exactly one header byte \<open>0x80 OR ((a << 1) AND 0x7E)\<close>, whose mode bit (bit 7) is set,
  then reads exactly one byte while sending zero, and returns the byte the bus delivered,
  whatever the caller's buffer held before.  The same holds for the shifted form of every
  logical address \<open>r\<close> in 0..63.
\<close>

theorem reg_read_frame:
  fixes r :: u8
  assumes "r \<le> 63"
  shows "(\<forall>(a, reg) \<in> set register_map.
            a \<le> 63 \<and> reg = push_bit 1 a \<and>
            reg_read spi cs reg buf w =
              (miso w (rdn w),
               w\<lparr>trace := trace w @
                 [Nop3, GpioPut cs False, Nop3,
                  SpiWrite spi [0x80 OR (push_bit 1 a AND 0x7E)], SpiRead spi 0 [miso w (rdn w)],
                  Nop3, GpioPut cs True, Nop3],
                 rdn := Suc (rdn w)\<rparr>) \<and>
            transfers (trace (snd (reg_read spi cs reg buf w))) =
              transfers (trace w) @
              [SpiWrite spi [0x80 OR (push_bit 1 a AND 0x7E)], SpiRead spi 0 [miso w (rdn w)]] \<and>
            bit (0x80 OR (push_bit 1 a AND 0x7E) :: u8) 7) \<and>
         reg_read spi cs (push_bit 1 r) buf w =
           (miso w (rdn w),
            w\<lparr>trace := trace w @
              [Nop3, GpioPut cs False, Nop3,
               SpiWrite spi [0x80 OR (push_bit 1 r AND 0x7E)], SpiRead spi 0 [miso w (rdn w)],
               Nop3, GpioPut cs True, Nop3],
              rdn := Suc (rdn w)\<rparr>) \<and>
         transfers (trace (snd (reg_read spi cs (push_bit 1 r) buf w))) =
           transfers (trace w) @
           [SpiWrite spi [0x80 OR (push_bit 1 r AND 0x7E)], SpiRead spi 0 [miso w (rdn w)]] \<and>
         bit (0x80 OR (push_bit 1 r AND 0x7E) :: u8) 7"
proof -
  have g: "reg_read spi cs (push_bit 1 x) buf w =
           (miso w (rdn w),
            w\<lparr>trace := trace w @
              [Nop3, GpioPut cs False, Nop3,
               SpiWrite spi [0x80 OR (push_bit 1 x AND 0x7E)], SpiRead spi 0 [miso w (rdn w)],
               Nop3, GpioPut cs True, Nop3],
              rdn := Suc (rdn w)\<rparr>) \<and>
         transfers (trace (snd (reg_read spi cs (push_bit 1 x) buf w))) =
           transfers (trace w) @
           [SpiWrite spi [0x80 OR (push_bit 1 x AND 0x7E)], SpiRead spi 0 [miso w (rdn w)]] \<and>
         bit (0x80 OR (push_bit 1 x AND 0x7E) :: u8) 7" if "x \<le> 63" for x :: u8
    using shifted_address [OF that]
    by (simp add: reg_read_eq read_frame_def transfers_def bit_or_iff)
  have "a \<le> 63 \<and> reg = push_bit 1 a \<and>
            reg_read spi cs reg buf w =
              (miso w (rdn w),
               w\<lparr>trace := trace w @
                 [Nop3, GpioPut cs False, Nop3,
                  SpiWrite spi [0x80 OR (push_bit 1 a AND 0x7E)], SpiRead spi 0 [miso w (rdn w)],
                  Nop3, GpioPut cs True, Nop3],
                 rdn := Suc (rdn w)\<rparr>) \<and>
            transfers (trace (snd (reg_read spi cs reg buf w))) =
              transfers (trace w) @
              [SpiWrite spi [0x80 OR (push_bit 1 a AND 0x7E)], SpiRead spi 0 [miso w (rdn w)]] \<and>
            bit (0x80 OR (push_bit 1 a AND 0x7E) :: u8) 7"
    if "(a, reg) \<in> set register_map" for a reg
  proof -
    from that have m: "a \<le> 63" "reg = push_bit 1 a"
      by (auto simp add: register_map_def CommandReg_def FIFODataReg_def FIFOLevelReg_def
          AutoTestReg_def VersionReg_def)
    show ?thesis unfolding m(2) using g [OF m(1)] m(1) by blast
  qed
  with g [OF assms] show ?thesis by blast
qed

theorem reg_read_frame_witness:
  "reg_read spi0 17 VersionReg 0x0A (device [0x92]) =
     (0x92,
      (device [0x92])\<lparr>trace := [Nop3, GpioPut 17 False, Nop3,
                                  SpiWrite spi0 [0xEE], SpiRead spi0 0 [0x92],
                                  Nop3, GpioPut 17 True, Nop3],
                       rdn := 1\<rparr>) \<and>
   reg_read spi0 17 FIFOLevelReg 0x00 (device [0x40]) =
     (0x40,
      (device [0x40])\<lparr>trace := [Nop3, GpioPut 17 False, Nop3,
                                  SpiWrite spi0 [0x94], SpiRead spi0 0 [0x40],
                                  Nop3, GpioPut 17 True, Nop3],
                       rdn := 1\<rparr>)"
proof (intro conjI)
  have le: "(0x3F :: u8) \<le> 63" by simp
  have v: "(0x37, VersionReg) \<in> set register_map" by (simp add: register_map_def)
  have l: "(0x0A, FIFOLevelReg) \<in> set register_map" by (simp add: register_map_def)
  from reg_read_frame [OF le, of spi0 17 "0x0A" "device [0x92]", THEN conjunct1, THEN bspec, OF v]
  have "reg_read spi0 17 VersionReg 0x0A (device [0x92]) =
      (miso (device [0x92]) (rdn (device [0x92])),
       (device [0x92])\<lparr>trace := trace (device [0x92]) @
          [Nop3, GpioPut 17 False, Nop3,
           SpiWrite spi0 [0x80 OR (push_bit 1 0x37 AND 0x7E)],
           SpiRead spi0 0 [miso (device [0x92]) (rdn (device [0x92]))],
           Nop3, GpioPut 17 True, Nop3],
          rdn := Suc (rdn (device [0x92]))\<rparr>)"
    by (simp only: prod.case)
  then show "reg_read spi0 17 VersionReg 0x0A (device [0x92]) =
     (0x92,
      (device [0x92])\<lparr>trace := [Nop3, GpioPut 17 False, Nop3,
                                  SpiWrite spi0 [0xEE], SpiRead spi0 0 [0x92],
                                  Nop3, GpioPut 17 True, Nop3],
                       rdn := 1\<rparr>)"
    by (simp add: device_def)
  from reg_read_frame [OF le, of spi0 17 "0x00" "device [0x40]", THEN conjunct1, THEN bspec, OF l]
  have "reg_read spi0 17 FIFOLevelReg 0x00 (device [0x40]) =
      (miso (device [0x40]) (rdn (device [0x40])),
       (device [0x40])\<lparr>trace := trace (device [0x40]) @
          [Nop3, GpioPut 17 False, Nop3,
           SpiWrite spi0 [0x80 OR (push_bit 1 0x0A AND 0x7E)],
           SpiRead spi0 0 [miso (device [0x40]) (rdn (device [0x40]))],
           Nop3, GpioPut 17 True, Nop3],
          rdn := Suc (rdn (device [0x40]))\<rparr>)"
    by (simp only: prod.case)
  then show "reg_read spi0 17 FIFOLevelReg 0x00 (device [0x40]) =
     (0x40,
      (device [0x40])\<lparr>trace := [Nop3, GpioPut 17 False, Nop3,
                                  SpiWrite spi0 [0x94], SpiRead spi0 0 [0x40],
                                  Nop3, GpioPut 17 True, Nop3],
                       rdn := 1\<rparr>)"
    by (simp add: device_def)
qed

section \<open>Concrete devices and the comparison\<close>

lemma device_simps:
  "trace (device bs) = []" "rdn (device bs) = 0"
  "miso (device bs) n = (if n < length bs then bs ! n else 0)"
  by (simp_all add: device_def)

lemma length_PROGMEM: "length PROGMEM = 64"
  by (simp add: PROGMEM_def)

lemma length_drained: "length (drained k w) = 64"
  by (simp add: drained_def)

lemma drained_device:
  assumes "length pre = Suc k" and "length bs = 64"
  shows "drained k (device (pre @ bs)) = bs"
proof (rule nth_equalityI)
  show "length (drained k (device (pre @ bs))) = length bs"
    by (simp add: length_drained assms)
next
  fix j
  assume "j < length (drained k (device (pre @ bs)))"
  then have "j < 64" by (simp add: length_drained)
  then show "drained k (device (pre @ bs)) ! j = bs ! j"
    using assms by (simp add: drained_def device_simps nth_append del: upt_rec_numeral)
qed

lemma self_test_compare_verdict:
  assumes "length result = 64"
  shows "self_test_compare 0 result = (if result = PROGMEM then 0 else 255)"
proof -
  have "(\<forall>j. 0 \<le> j \<and> j < 64 \<longrightarrow> result ! j = PROGMEM ! j) \<longleftrightarrow> result = PROGMEM"
    using assms by (auto simp add: list_eq_iff_nth_eq length_PROGMEM)
  then show ?thesis by (simp only: self_test_compare_eq [of 0 result])
qed

text \<open>Two concrete devices: both answer the level reads with 0x3F, then 0x40.\<close>

lemma polls_device:
  "(\<forall>i<1. miso (device (0x3F # 0x40 # bs)) (rdn (device (0x3F # 0x40 # bs)) + i) < 64) \<and>
   64 \<le> miso (device (0x3F # 0x40 # bs)) (rdn (device (0x3F # 0x40 # bs)) + 1)"
  by (simp add: device_simps)

section \<open>Termination of the wait loop\<close>

text \<open>
  C5.  The wait loop of \<open>self_test\<close>, entered with the flag false as the code does,
  returns if and only if some read of the FIFO level register delivers a byte of at least
  64; otherwise it never returns, and neither does \<open>self_test\<close>.  There is no bound on
  the passes: when the first such byte is the \<open>k + 1\<close>-th, the loop returns after exactly
  \<open>k + 1\<close> reads, for every \<open>k\<close>.
\<close>

theorem wait_terminates_iff:
  "((\<exists>w'. self_test_wait False cs w = Some w') \<longleftrightarrow> (\<exists>n. 64 \<le> miso w (rdn w + n))) \<and>
   (self_test_wait False cs w = None \<longleftrightarrow> (\<forall>n. miso w (rdn w + n) < 64)) \<and>
   ((\<exists>r w'. self_test cs sck mosi misop w = Some (r, w')) \<longleftrightarrow> (\<exists>n. 64 \<le> miso w (rdn w + n))) \<and>
   (self_test cs sck mosi misop w = None \<longleftrightarrow> (\<forall>n. miso w (rdn w + n) < 64)) \<and>
   ((\<forall>i<k. miso w (rdn w + i) < 64) \<and> 64 \<le> miso w (rdn w + k) \<longrightarrow>
      (\<exists>w'. self_test_wait False cs w = Some w' \<and> rdn w' = rdn w + Suc k))"
proof (intro conjI)
  have n: "(\<exists>n. 64 \<le> miso w (rdn w + n)) \<longleftrightarrow> \<not> (\<forall>n. miso w (rdn w + n) < 64)"
    by (auto simp: not_less)
  have "(\<exists>w'. self_test_wait False cs w = Some w') \<longleftrightarrow> self_test_wait False cs w \<noteq> None"
    by auto
  also have "\<dots> \<longleftrightarrow> \<not> (\<forall>n. miso w (rdn w + n) < 64)"
    by (simp only: self_test_wait_None_iff)
  finally show "(\<exists>w'. self_test_wait False cs w = Some w') \<longleftrightarrow> (\<exists>n. 64 \<le> miso w (rdn w + n))"
    by (simp only: n)
  show "self_test_wait False cs w = None \<longleftrightarrow> (\<forall>n. miso w (rdn w + n) < 64)"
    by (rule self_test_wait_None_iff)
  have "(\<exists>r w'. self_test cs sck mosi misop w = Some (r, w')) \<longleftrightarrow>
        self_test cs sck mosi misop w \<noteq> None"
    by auto
  also have "\<dots> \<longleftrightarrow> \<not> (\<forall>n. miso w (rdn w + n) < 64)"
    by (simp only: self_test_None_iff)
  finally show "(\<exists>r w'. self_test cs sck mosi misop w = Some (r, w')) \<longleftrightarrow>
      (\<exists>n. 64 \<le> miso w (rdn w + n))"
    by (simp only: n)
  show "self_test cs sck mosi misop w = None \<longleftrightarrow> (\<forall>n. miso w (rdn w + n) < 64)"
    by (rule self_test_None_iff)
  show "(\<forall>i<k. miso w (rdn w + i) < 64) \<and> 64 \<le> miso w (rdn w + k) \<longrightarrow>
      (\<exists>w'. self_test_wait False cs w = Some w' \<and> rdn w' = rdn w + Suc k)"
    using self_test_wait_Some [of k w cs] by (auto simp add: polls_def)
qed

theorem wait_terminates_iff_witness:
  "self_test 17 18 19 16 (device []) = None \<and>
   self_test_wait False 17 (device []) = None \<and>
   (\<exists>w'. self_test_wait False 17 (device [0x3F, 0x40]) = Some w' \<and> rdn w' = 2) \<and>
   (\<exists>r w'. self_test 17 18 19 16 (device [0x3F, 0x40]) = Some (r, w'))"
proof (intro conjI)
  have z: "\<forall>n. miso (device []) (rdn (device []) + n) < 64" by (simp add: device_simps)
  from z wait_terminates_iff [of 17 "device []" 18 19 16 0]
  show "self_test 17 18 19 16 (device []) = None" by blast
  from z wait_terminates_iff [of 17 "device []" 18 19 16 0]
  show "self_test_wait False 17 (device []) = None" by blast
  from polls_device [of "[]"] wait_terminates_iff [of 17 "device [0x3F, 0x40]" 18 19 16 1]
  have "\<exists>w'. self_test_wait False 17 (device [0x3F, 0x40]) = Some w' \<and>
          rdn w' = rdn (device [0x3F, 0x40]) + Suc 1"
    by blast
  then show "\<exists>w'. self_test_wait False 17 (device [0x3F, 0x40]) = Some w' \<and> rdn w' = 2"
    by (simp add: device_simps numeral_2_eq_2)
  have "64 \<le> miso (device [0x3F, 0x40]) (rdn (device [0x3F, 0x40]) + 1)"
    by (simp add: device_simps)
  then have "\<exists>n. 64 \<le> miso (device [0x3F, 0x40]) (rdn (device [0x3F, 0x40]) + n)" ..
  with wait_terminates_iff [of 17 "device [0x3F, 0x40]" 18 19 16 1]
  show "\<exists>r w'. self_test 17 18 19 16 (device [0x3F, 0x40]) = Some (r, w')" by blast
qed

text \<open>
  C9.  The completion test compares the byte read from the FIFO level register, as an
  unsigned 8-bit value and unmasked, with 64: a byte of at least 64 ends the loop after this
  read, a smaller one repeats it.  The byte 0x80, whose low seven bits are zero, ends the
  loop.
\<close>

theorem wait_completion_raw_byte:
  "self_test_wait False cs w =
     (if 64 \<le> unat (miso w (rdn w)) then Some (snd (reg_read spi0 cs FIFOLevelReg 0 w))
      else self_test_wait False cs (snd (reg_read spi0 cs FIFOLevelReg 0 w))) \<and>
   fst (reg_read spi0 cs FIFOLevelReg 0 w) = miso w (rdn w) \<and>
   (miso w (rdn w) = 0x80 \<longrightarrow>
      miso w (rdn w) AND 0x7F = 0 \<and>
      self_test_wait False cs w = Some (snd (reg_read spi0 cs FIFOLevelReg 0 w)))"
proof -
  have u: "64 \<le> miso w (rdn w) \<longleftrightarrow> 64 \<le> unat (miso w (rdn w))"
    by (simp add: word_le_nat_alt)
  have "self_test_wait False cs w =
     (if 64 \<le> miso w (rdn w) then Some (snd (reg_read spi0 cs FIFOLevelReg 0 w))
      else self_test_wait False cs (snd (reg_read spi0 cs FIFOLevelReg 0 w)))"
    by (simp add: self_test_wait_False [of cs w] self_test_wait_True)
  then show ?thesis
    unfolding u by (auto simp add: reg_read_eq)
qed

theorem wait_completion_raw_byte_witness:
  "self_test_wait False 17 (device [0x80]) =
     Some (snd (reg_read spi0 17 FIFOLevelReg 0 (device [0x80]))) \<and>
   miso (device [0x80]) (rdn (device [0x80])) AND 0x7F = 0 \<and>
   unat (miso (device [0x80]) (rdn (device [0x80]))) = 128"
  using wait_completion_raw_byte [of 17 "device [0x80]"]
  by (simp add: device_simps)


section \<open>The transfer sequence of \<open>self_test\<close>\<close>

lemma transfers_append: "transfers (xs @ ys) = transfers xs @ transfers ys"
  by (simp add: transfers_def)

lemma transfers_Cons:
  "transfers (e # es) = (if is_transfer e then e # transfers es else transfers es)"
  by (simp add: transfers_def)

lemma transfers_Nil: "transfers [] = []"
  by (simp add: transfers_def)

lemma transfers_write_frame: "transfers (write_frame spi cs h d) = [SpiWrite spi [h, d]]"
  by (simp add: transfers_def write_frame_def)

lemma transfers_read_frame: "transfers (read_frame spi0 cs (0x80 OR reg) b) = read_xfer reg b"
  by (simp add: transfers_def read_frame_def read_xfer_def)

lemma transfers_concat_map: "transfers (concat (map f xs)) = concat (map (\<lambda>x. transfers (f x)) xs)"
  by (induction xs) (simp_all add: transfers_append transfers_Nil)

lemma transfers_concat_replicate:
  "transfers (concat (replicate n (write_frame spi cs h d))) = replicate n (SpiWrite spi [h, d])"
  by (induction n) (simp_all add: transfers_append transfers_Nil transfers_write_frame)

lemma concat_map_Nil: "concat (map (\<lambda>x. []) xs) = []"
  by (induction xs) simp_all

lemma transfers_self_test_events:
  "transfers (self_test_events cs k w) =
     [SpiWrite spi0 [CommandReg, SoftReset], SpiWrite spi0 [FIFOLevelReg, 0x80]] @
     replicate 25 (SpiWrite spi0 [FIFODataReg, 0x00]) @
     [SpiWrite spi0 [CommandReg, Mem], SpiWrite spi0 [AutoTestReg, 0x09],
      SpiWrite spi0 [FIFODataReg, 0x00], SpiWrite spi0 [CommandReg, CalcCRC]] @
     concat (map (\<lambda>i. read_xfer FIFOLevelReg (miso w (rdn w + i))) [0..<Suc k]) @
     concat (map (\<lambda>j. read_xfer FIFODataReg (miso w (rdn w + Suc k + j))) [0..<64]) @
     [SpiWrite spi0 [AutoTestReg, 0x00]]"
  by (simp add: self_test_events_def arm_events_def transfers_append transfers_Cons
      transfers_Nil transfers_write_frame transfers_read_frame transfers_concat_map
      transfers_concat_replicate concat_map_Nil EnableSelfTest_def
      del: upt_Suc upt_rec_numeral)

lemma self_test_device_run:
  "self_test 17 18 19 16 (device (0x3F # 0x40 # bs)) =
     Some (self_test_compare 0 (drained 1 (device (0x3F # 0x40 # bs))),
           (device (0x3F # 0x40 # bs))
             \<lparr>trace := self_test_events 17 1 (device (0x3F # 0x40 # bs)), rdn := 66\<rparr>)"
proof -
  note p = polls_device [of bs]
  from p have a: "\<forall>i<1. miso (device (0x3F # 0x40 # bs)) (rdn (device (0x3F # 0x40 # bs)) + i) < 64"
    and b: "64 \<le> miso (device (0x3F # 0x40 # bs)) (rdn (device (0x3F # 0x40 # bs)) + 1)"
    by blast+
  show ?thesis
    using self_test_run [OF a b, of 17 18 19 16] by (simp add: device_simps)
qed

lemma polls_device_unique:
  assumes "\<forall>i<k. miso (device (0x3F # 0x40 # bs)) (rdn (device (0x3F # 0x40 # bs)) + i) < 64"
    and "64 \<le> miso (device (0x3F # 0x40 # bs)) (rdn (device (0x3F # 0x40 # bs)) + k)"
  shows "k = 1"
proof -
  note p = polls_device [of bs]
  from p have a: "\<forall>i<1. miso (device (0x3F # 0x40 # bs)) (rdn (device (0x3F # 0x40 # bs)) + i) < 64"
    and b: "64 \<le> miso (device (0x3F # 0x40 # bs)) (rdn (device (0x3F # 0x40 # bs)) + 1)"
    by blast+
  show ?thesis
    by (rule first_reach_unique [of k "\<lambda>i. miso (device (0x3F # 0x40 # bs)) (rdn (device (0x3F # 0x40 # bs)) + i)" 1])
       (use assms a b in auto)
qed

text \<open>
  C1.  Every run of \<open>self_test\<close> that returns performs exactly these bus transfers, in
  this order, whatever it returns: the soft-reset command write, the write of 0x80 to the
  FIFO level register, 25 writes of 0x00 to the FIFO data register, the \<open>Mem\<close> command
  write, the write of 0x09 to the auto-test register, one write of 0x00 to the FIFO data
  register, the \<open>CalcCRC\<close> command write, \<open>k + 1\<close> reads of the FIFO level register of
  which the last is the first to deliver at least 64, exactly 64 reads of the FIFO data
  register, and the write of 0x00 to the auto-test register.
\<close>

theorem self_test_sequence:
  assumes "self_test cs_pin sck_pin mosi_pin miso_pin w = Some (r, w')"
  shows "\<exists>k. (\<forall>i<k. miso w (rdn w + i) < 64) \<and> 64 \<le> miso w (rdn w + k) \<and>
           transfers (trace w') =
             transfers (trace w) @
             [SpiWrite spi0 [CommandReg, SoftReset], SpiWrite spi0 [FIFOLevelReg, 0x80]] @
             replicate 25 (SpiWrite spi0 [FIFODataReg, 0x00]) @
             [SpiWrite spi0 [CommandReg, Mem], SpiWrite spi0 [AutoTestReg, 0x09],
              SpiWrite spi0 [FIFODataReg, 0x00], SpiWrite spi0 [CommandReg, CalcCRC]] @
             concat (map (\<lambda>i. read_xfer FIFOLevelReg (miso w (rdn w + i))) [0..<Suc k]) @
             concat (map (\<lambda>j. read_xfer FIFODataReg (miso w (rdn w + Suc k + j))) [0..<64]) @
             [SpiWrite spi0 [AutoTestReg, 0x00]]"
proof -
  from assms obtain k where k: "\<forall>i<k. miso w (rdn w + i) < 64" "64 \<le> miso w (rdn w + k)"
    and w': "w' = w\<lparr>trace := trace w @ self_test_events cs_pin k w, rdn := rdn w + k + 65\<rparr>"
    unfolding self_test_Some_iff by blast
  have "transfers (trace w') = transfers (trace w) @ transfers (self_test_events cs_pin k w)"
    by (simp add: w' transfers_append)
  with k show ?thesis
    unfolding transfers_self_test_events by blast
qed


theorem self_test_sequence_witness:
  "\<exists>r w'. self_test 17 18 19 16 (device [0x3F, 0x40]) = Some (r, w') \<and>
     transfers (trace w') =
       [SpiWrite spi0 [0x02, 0x0F], SpiWrite spi0 [0x14, 0x80]] @
       replicate 25 (SpiWrite spi0 [0x12, 0x00]) @
       [SpiWrite spi0 [0x02, 0x01], SpiWrite spi0 [0x6C, 0x09],
        SpiWrite spi0 [0x12, 0x00], SpiWrite spi0 [0x02, 0x03]] @
       [SpiWrite spi0 [0x94], SpiRead spi0 0 [0x3F], SpiWrite spi0 [0x94], SpiRead spi0 0 [0x40]] @
       concat (map (\<lambda>j. [SpiWrite spi0 [0x92], SpiRead spi0 0 [0x00]]) [0..<64]) @
       [SpiWrite spi0 [0x6C, 0x00]]"
proof -
  let ?d = "device [0x3F, 0x40]"
  obtain r w' where st: "self_test 17 18 19 16 ?d = Some (r, w')"
    using self_test_device_run [of "[]"] by blast
  from self_test_sequence [OF st] obtain k
    where k: "\<forall>i<k. miso ?d (rdn ?d + i) < 64" "64 \<le> miso ?d (rdn ?d + k)"
      and t: "transfers (trace w') =
             transfers (trace ?d) @
             [SpiWrite spi0 [CommandReg, SoftReset], SpiWrite spi0 [FIFOLevelReg, 0x80]] @
             replicate 25 (SpiWrite spi0 [FIFODataReg, 0x00]) @
             [SpiWrite spi0 [CommandReg, Mem], SpiWrite spi0 [AutoTestReg, 0x09],
              SpiWrite spi0 [FIFODataReg, 0x00], SpiWrite spi0 [CommandReg, CalcCRC]] @
             concat (map (\<lambda>i. read_xfer FIFOLevelReg (miso ?d (rdn ?d + i))) [0..<Suc k]) @
             concat (map (\<lambda>j. read_xfer FIFODataReg (miso ?d (rdn ?d + Suc k + j))) [0..<64]) @
             [SpiWrite spi0 [AutoTestReg, 0x00]]"
    by blast
  from k have k1: "k = 1" by (rule polls_device_unique)
  have "transfers (trace w') =
       [SpiWrite spi0 [0x02, 0x0F], SpiWrite spi0 [0x14, 0x80]] @
       replicate 25 (SpiWrite spi0 [0x12, 0x00]) @
       [SpiWrite spi0 [0x02, 0x01], SpiWrite spi0 [0x6C, 0x09],
        SpiWrite spi0 [0x12, 0x00], SpiWrite spi0 [0x02, 0x03]] @
       [SpiWrite spi0 [0x94], SpiRead spi0 0 [0x3F], SpiWrite spi0 [0x94], SpiRead spi0 0 [0x40]] @
       concat (map (\<lambda>j. [SpiWrite spi0 [0x92], SpiRead spi0 0 [0x00]]) [0..<64]) @
       [SpiWrite spi0 [0x6C, 0x00]]"
    unfolding t k1
    by (simp add: device_simps transfers_Nil read_xfer_def CommandReg_def SoftReset_def
        FIFOLevelReg_def FIFODataReg_def Mem_def AutoTestReg_def CalcCRC_def
        del: upt_rec_numeral)
  with st show ?thesis by blast
qed


section \<open>The verdict of \<open>self_test\<close>\<close>

lemma flipped_differs:
  assumes "p < 64" and "v \<noteq> PROGMEM ! p"
  shows "PROGMEM[p := v] \<noteq> PROGMEM"
proof
  assume "PROGMEM[p := v] = PROGMEM"
  then have "PROGMEM[p := v] ! p = PROGMEM ! p" by simp
  with assms show False by (simp add: length_PROGMEM)
qed

text \<open>
  C2.  Let the device answer \<open>k\<close> level reads below 64, then one of at least 64, then
  the 64 bytes \<open>drained k w\<close>.  Then \<open>self_test\<close> returns, and it returns 0 (pass) if
  the 64 bytes are the stored revision-2.0 vector \<open>PROGMEM\<close> and 255 (fail) otherwise.  In
  particular it returns 255 when the 64 bytes are \<open>PROGMEM\<close> with the byte at one
  position \<open>p\<close> in 0..63 replaced by any other value.
\<close>

theorem self_test_verdict:
  assumes "\<forall>i<k. miso w (rdn w + i) < 64" and "64 \<le> miso w (rdn w + k)"
  shows "length (drained k w) = 64 \<and>
         (\<exists>w'. self_test cs_pin sck_pin mosi_pin miso_pin w =
                 Some (if drained k w = PROGMEM then 0 else 255, w')) \<and>
         (\<forall>p v. p < 64 \<and> v \<noteq> PROGMEM ! p \<and> drained k w = PROGMEM[p := v] \<longrightarrow>
            (\<exists>w'. self_test cs_pin sck_pin mosi_pin miso_pin w = Some (255, w')))"
proof -
  have r: "self_test cs_pin sck_pin mosi_pin miso_pin w =
      Some (if drained k w = PROGMEM then 0 else 255,
            w\<lparr>trace := trace w @ self_test_events cs_pin k w, rdn := rdn w + k + 65\<rparr>)"
    by (simp only: self_test_run [OF assms] self_test_compare_verdict [OF length_drained])
  then have "\<exists>w'. self_test cs_pin sck_pin mosi_pin miso_pin w =
                 Some (if drained k w = PROGMEM then 0 else 255, w')"
    by blast
  moreover have "\<exists>w'. self_test cs_pin sck_pin mosi_pin miso_pin w = Some (255, w')"
    if "p < 64" "v \<noteq> PROGMEM ! p" "drained k w = PROGMEM[p := v]" for p v
    using r flipped_differs [OF that(1,2)] that(3) by simp
  ultimately show ?thesis
    by (simp add: length_drained) blast
qed

theorem self_test_verdict_witness:
  "(\<exists>w'. self_test 17 18 19 16 (device (0x3F # 0x40 # PROGMEM)) = Some (0, w')) \<and>
   (\<exists>w'. self_test 17 18 19 16 (device (0x3F # 0x40 # PROGMEM[63 := 0x2E])) = Some (255, w'))"
proof
  let ?d = "device (0x3F # 0x40 # PROGMEM)"
  have d: "drained 1 ?d = PROGMEM"
    using drained_device [of "[0x3F, 0x40]" 1 PROGMEM] by (simp add: length_PROGMEM)
  from polls_device [of PROGMEM]
  have a: "\<forall>i<1. miso ?d (rdn ?d + i) < 64" and b: "64 \<le> miso ?d (rdn ?d + 1)" by blast+
  from self_test_verdict [OF a b, of 17 18 19 16]
  have "\<exists>w'. self_test 17 18 19 16 ?d = Some (if drained 1 ?d = PROGMEM then 0 else 255, w')"
    by blast
  then show "\<exists>w'. self_test 17 18 19 16 ?d = Some (0, w')" by (simp only: d refl if_True)
next
  let ?d = "device (0x3F # 0x40 # PROGMEM[63 := 0x2E])"
  have d: "drained 1 ?d = PROGMEM[63 := 0x2E]"
    using drained_device [of "[0x3F, 0x40]" 1 "PROGMEM[63 := 0x2E]"] by (simp add: length_PROGMEM)
  have ne: "(0x2E :: u8) \<noteq> PROGMEM ! 63" by (simp add: PROGMEM_def)
  from polls_device [of "PROGMEM[63 := 0x2E]"]
  have a: "\<forall>i<1. miso ?d (rdn ?d + i) < 64" and b: "64 \<le> miso ?d (rdn ?d + 1)" by blast+
  have lt: "(63 :: nat) < 64" by simp
  from self_test_verdict [OF a b, of 17 18 19 16] d ne lt
  show "\<exists>w'. self_test 17 18 19 16 ?d = Some (255, w')" by blast
qed

text \<open>
  C10.  The byte \<open>self_test\<close> returns is 0 or the conversion of \<open>-1\<close> to an unsigned
  byte; read as an unsigned number it is 0 on a pass and 255 on a mismatch, never negative.
\<close>

theorem self_test_return_byte:
  assumes "self_test cs_pin sck_pin mosi_pin miso_pin w = Some (r, w')"
  shows "(r = 0 \<or> r = word_of_int (- 1)) \<and> (uint r = 0 \<or> uint r = 255) \<and>
         (\<exists>k. (\<forall>i<k. miso w (rdn w + i) < 64) \<and> 64 \<le> miso w (rdn w + k) \<and>
              (drained k w = PROGMEM \<longrightarrow> uint r = 0) \<and>
              (drained k w \<noteq> PROGMEM \<longrightarrow> uint r = 255))"
proof -
  from assms obtain k where k: "\<forall>i<k. miso w (rdn w + i) < 64" "64 \<le> miso w (rdn w + k)"
    and "r = self_test_compare 0 (drained k w)"
    unfolding self_test_Some_iff by blast
  then have r: "r = (if drained k w = PROGMEM then 0 else 255)"
    by (simp only: self_test_compare_verdict [OF length_drained])
  then have "(drained k w = PROGMEM \<longrightarrow> uint r = 0) \<and> (drained k w \<noteq> PROGMEM \<longrightarrow> uint r = 255)"
    by simp
  moreover from r have "(r = 0 \<or> r = word_of_int (- 1)) \<and> (uint r = 0 \<or> uint r = 255)"
    by (cases "drained k w = PROGMEM") simp_all
  ultimately show ?thesis using k by blast
qed

theorem self_test_return_byte_witness:
  "self_test 17 18 19 16 (device [0x3F, 0x40]) =
     Some (255, (device [0x3F, 0x40])
                  \<lparr>trace := self_test_events 17 1 (device [0x3F, 0x40]), rdn := 66\<rparr>) \<and>
   uint (255 :: u8) = 255"
proof -
  let ?d = "device [0x3F, 0x40]"
  let ?w' = "?d\<lparr>trace := self_test_events 17 1 ?d, rdn := 66\<rparr>"
  let ?r = "self_test_compare 0 (drained 1 ?d)"
  have st: "self_test 17 18 19 16 ?d = Some (?r, ?w')"
    by (rule self_test_device_run)
  have "drained 1 ?d ! 1 \<noteq> PROGMEM ! 1"
    by (simp add: drained_def device_simps PROGMEM_def del: upt_rec_numeral)
  then have ne: "drained 1 ?d \<noteq> PROGMEM" by auto
  from self_test_return_byte [OF st] have "?r = 0 \<or> ?r = word_of_int (- 1)" by blast
  moreover have "?r \<noteq> 0"
    using ne by (simp only: self_test_compare_verdict [OF length_drained]) simp
  ultimately have "?r = 255" by simp
  with st show ?thesis by simp
qed


section \<open>The UID comparison of example.c\<close>

lemma memcmp_eq_0_iff:
  "n \<le> length s1 \<Longrightarrow> n \<le> length s2 \<Longrightarrow>
   \<exists>c. memcmp s1 s2 n = Some c \<and> (c = 0 \<longleftrightarrow> take n s1 = take n s2)"
proof (induction s1 s2 n rule: memcmp.induct)
  case (2 a s1 b s2 n)
  show ?case
  proof (cases "a = b")
    case True
    with 2 show ?thesis by simp
  next
    case False
    then have "uint a \<noteq> uint b" by (simp add: word_uint_eq_iff)
    with False show ?thesis by simp
  qed
qed simp_all

lemma printf_messages_differ:
  "printf (''Authentication Success'' @ nl_cr) [] w \<noteq> printf (''Authentication Failed'' @ nl_cr) [] w"
proof
  assume "printf (''Authentication Success'' @ nl_cr) [] w = printf (''Authentication Failed'' @ nl_cr) [] w"
  then have "trace (printf (''Authentication Success'' @ nl_cr) [] w) =
             trace (printf (''Authentication Failed'' @ nl_cr) [] w)" by simp
  then show False by (simp add: printf_eq)
qed

text \<open>
  C8.  Let \<open>uidByte\<close> hold at least four bytes, the first four being the scanned UID.
  The authorization step reports success if and only if these four bytes equal the
  reference UID \<open>tag1\<close>, and failure otherwise; a UID that differs from \<open>tag1\<close> in one
  byte reports failure.
\<close>

theorem uid_check_iff:
  assumes "4 \<le> length uidByte"
  shows "(uid_check uidByte w = Some (printf (''Authentication Success'' @ nl_cr) [] w)
            \<longleftrightarrow> take 4 uidByte = tag1) \<and>
         (uid_check uidByte w = Some (printf (''Authentication Failed'' @ nl_cr) [] w)
            \<longleftrightarrow> take 4 uidByte \<noteq> tag1) \<and>
         (\<forall>p v. p < 4 \<and> v \<noteq> tag1 ! p \<and> take 4 uidByte = tag1[p := v] \<longrightarrow>
            uid_check uidByte w = Some (printf (''Authentication Failed'' @ nl_cr) [] w))"
proof -
  have l: "length tag1 = 4" by (simp add: tag1_def)
  from memcmp_eq_0_iff [of 4 uidByte tag1] assms l
  obtain c where c: "memcmp uidByte tag1 4 = Some c" "c = 0 \<longleftrightarrow> take 4 uidByte = tag1"
    by auto
  have u: "uid_check uidByte w =
      Some (if take 4 uidByte = tag1 then printf (''Authentication Success'' @ nl_cr) [] w
            else printf (''Authentication Failed'' @ nl_cr) [] w)"
    using c by (simp add: uid_check_def)
  have f: "tag1[p := v] \<noteq> tag1" if "p < 4" "v \<noteq> tag1 ! p" for p v
  proof
    assume "tag1[p := v] = tag1"
    then have "tag1[p := v] ! p = tag1 ! p" by simp
    with that l show False by simp
  qed
  let ?S = "printf (''Authentication Success'' @ nl_cr) [] w"
  let ?F = "printf (''Authentication Failed'' @ nl_cr) [] w"
  have ne: "?S \<noteq> ?F" by (rule printf_messages_differ)
  show ?thesis
  proof (intro conjI allI impI)
    show "uid_check uidByte w = Some ?S \<longleftrightarrow> take 4 uidByte = tag1"
    proof (cases "take 4 uidByte = tag1")
      case True
      with u show ?thesis by (simp only: if_True if_False simp_thms)
    next
      case False
      with u have "uid_check uidByte w = Some ?F" by (simp only: if_True if_False simp_thms)
      with ne False show ?thesis by (simp only: option.inject) auto
    qed
    show "uid_check uidByte w = Some ?F \<longleftrightarrow> take 4 uidByte \<noteq> tag1"
    proof (cases "take 4 uidByte = tag1")
      case True
      with u have "uid_check uidByte w = Some ?S" by (simp only: if_True if_False simp_thms)
      with ne True show ?thesis by (simp only: option.inject) auto
    next
      case False
      with u show ?thesis by (simp only: if_True if_False simp_thms)
    qed
  next
    fix p v
    assume a: "p < 4 \<and> v \<noteq> tag1 ! p \<and> take 4 uidByte = tag1[p := v]"
    then have "take 4 uidByte \<noteq> tag1" using f [of p v] by auto
    with u show "uid_check uidByte w = Some ?F" by (simp only: if_True if_False simp_thms)
  qed
qed

theorem uid_check_iff_witness:
  "4 \<le> length [0x93, 0xE3, 0x9A, 0x92, 0x00 :: u8] \<and>
   uid_check [0x93, 0xE3, 0x9A, 0x92, 0x00] (device []) =
     Some (printf (''Authentication Success'' @ nl_cr) [] (device [])) \<and>
   uid_check [0x93, 0xE3, 0x9A, 0x93] (device []) =
     Some (printf (''Authentication Failed'' @ nl_cr) [] (device []))"
proof -
  have a: "take 4 [0x93, 0xE3, 0x9A, 0x92, 0x00 :: u8] = tag1" by (simp add: tag1_def)
  have b: "take 4 [0x93, 0xE3, 0x9A, 0x93 :: u8] \<noteq> tag1" by (simp add: tag1_def)
  have la: "4 \<le> length [0x93, 0xE3, 0x9A, 0x92, 0x00 :: u8]" by simp
  have lb: "4 \<le> length [0x93, 0xE3, 0x9A, 0x93 :: u8]" by simp
  from uid_check_iff [OF la, of "device []"] a
  have 1: "uid_check [0x93, 0xE3, 0x9A, 0x92, 0x00] (device []) =
     Some (printf (''Authentication Success'' @ nl_cr) [] (device []))" by blast
  from uid_check_iff [OF lb, of "device []"] b
  have 2: "uid_check [0x93, 0xE3, 0x9A, 0x93] (device []) =
     Some (printf (''Authentication Failed'' @ nl_cr) [] (device []))" by blast
  from la 1 2 show ?thesis by blast
qed


section \<open>\<open>main\<close> and the version byte\<close>

lemma main_to_idle_eq:
  "main_to_idle w =
     (case self_test 17 18 19 16
             (w\<lparr>rdn := Suc (rdn w),
                trace := trace w @ main_init_events @
                    write_frame spi0 17 CommandReg SoftReset @ [SleepMs 50] @
                    read_frame spi0 17 (0x80 OR VersionReg) (miso w (rdn w)) @
                    [Printf (''Version: %x'' @ nl_cr) [uint (miso w (rdn w))]]\<rparr>) of
        None \<Rightarrow> None
      | Some (r, w2) \<Rightarrow>
          Some (r, w2\<lparr>trace := trace w2 @ [Printf (''Test Result: %d'' @ nl_cr) [uint r]]\<rparr>))"
  by (simp add: main_to_idle_def Let_def reg_write_eq reg_read_eq printf_eq sleep_ms_eq
      gpio_init_def gpio_set_dir_def gpio_put_def gpio_set_function_def stdio_init_all_def
      spi_init_def spi_set_format_def emit_def main_init_events_def split: option.split)

lemma drained_cong:
  assumes "rdn wa = rdn wb" and "\<forall>n\<ge>rdn wa. miso wa n = miso wb n"
  shows "drained k wa = drained k wb"
proof -
  have "miso wa (rdn wa + Suc k + j) = miso wb (rdn wb + Suc k + j)" for j
  proof -
    have "rdn wa \<le> rdn wa + Suc k + j" by simp
    with assms(2) have "miso wa (rdn wa + Suc k + j) = miso wb (rdn wa + Suc k + j)" by blast
    then show ?thesis by (simp only: assms(1))
  qed
  then show ?thesis by (simp only: drained_def)
qed

lemma self_test_result_cong:
  assumes r: "rdn wa = rdn wb" and m: "\<forall>n\<ge>rdn wa. miso wa n = miso wb n"
  shows "map_option fst (self_test cs sck mosi misop wa) = map_option fst (self_test cs sck mosi misop wb)"
proof (cases "\<forall>n. miso wa (rdn wa + n) < 64")
  case True
  then have "\<forall>n. miso wb (rdn wb + n) < 64" using r m by simp
  then have "self_test cs sck mosi misop wb = None"
    using self_test_None_iff [of cs sck mosi misop wb] by blast
  moreover from True have "self_test cs sck mosi misop wa = None"
    using self_test_None_iff [of cs sck mosi misop wa] by blast
  ultimately show ?thesis by simp
next
  case False
  then obtain n where "64 \<le> miso wa (rdn wa + n)" by (auto simp: not_less)
  from first_reach [of "\<lambda>i. miso wa (rdn wa + i)", OF this]
  obtain k where ka: "\<forall>i<k. miso wa (rdn wa + i) < 64" "64 \<le> miso wa (rdn wa + k)" by auto
  then have kb: "\<forall>i<k. miso wb (rdn wb + i) < 64" "64 \<le> miso wb (rdn wb + k)"
    using r m by simp_all
  show ?thesis
    by (simp add: self_test_run [OF ka] self_test_run [OF kb] drained_cong [OF r m])
qed


lemma main_result_self_test:
  "map_option fst (main_to_idle w) =
     map_option fst (self_test 17 18 19 16
             (w\<lparr>rdn := Suc (rdn w),
                trace := trace w @ main_init_events @
                    write_frame spi0 17 CommandReg SoftReset @ [SleepMs 50] @
                    read_frame spi0 17 (0x80 OR VersionReg) (miso w (rdn w)) @
                    [Printf (''Version: %x'' @ nl_cr) [uint (miso w (rdn w))]]\<rparr>))"
  by (simp only: main_to_idle_eq [of w]) (simp split: option.split)

lemma main_result:
  assumes "\<forall>i<k. miso w (Suc (rdn w) + i) < 64" and "64 \<le> miso w (Suc (rdn w) + k)"
  shows "map_option fst (main_to_idle w) =
           Some (if drained k (w\<lparr>rdn := Suc (rdn w)\<rparr>) = PROGMEM then 0 else 255)"
proof -
  let ?W = "w\<lparr>rdn := Suc (rdn w),
                trace := trace w @ main_init_events @
                    write_frame spi0 17 CommandReg SoftReset @ [SleepMs 50] @
                    read_frame spi0 17 (0x80 OR VersionReg) (miso w (rdn w)) @
                    [Printf (''Version: %x'' @ nl_cr) [uint (miso w (rdn w))]]\<rparr>"
  have a: "\<forall>i<k. miso ?W (rdn ?W + i) < 64" using assms(1) by simp
  have b: "64 \<le> miso ?W (rdn ?W + k)" using assms(2) by simp
  have d: "drained k ?W = drained k (w\<lparr>rdn := Suc (rdn w)\<rparr>)"
    by (simp add: drained_def del: upt_rec_numeral)
  have "map_option fst (self_test 17 18 19 16 ?W) = Some (self_test_compare 0 (drained k ?W))"
    by (simp only: self_test_run [OF a b] option.map fst_conv)
  then show ?thesis
    by (simp only: main_result_self_test [of w] d self_test_compare_verdict [OF length_drained])
qed

text \<open>
  C7.  \<open>main\<close> reads the version register once, before \<open>self_test\<close>, and prints the
  byte.  The result of \<open>self_test\<close> does not depend on it: for two devices whose answers
  differ at most in the version byte, \<open>main\<close> obtains the same result from \<open>self_test\<close>
  (or no result from either), and that result is the comparison of the drained bytes with
  the one stored vector \<open>PROGMEM\<close>.
\<close>

theorem version_independent:
  assumes "rdn w2 = rdn w1" and "\<forall>n. n \<noteq> rdn w1 \<longrightarrow> miso w2 n = miso w1 n"
  shows "map_option fst (main_to_idle w2) = map_option fst (main_to_idle w1) \<and>
         (\<forall>r w'. main_to_idle w1 = Some (r, w') \<longrightarrow>
            Printf (''Version: %x'' @ nl_cr) [uint (miso w1 (rdn w1))] \<in> set (trace w') \<and>
            (\<exists>k. (\<forall>i<k. miso w1 (Suc (rdn w1) + i) < 64) \<and> 64 \<le> miso w1 (Suc (rdn w1) + k) \<and>
                 r = (if drained k (w1\<lparr>rdn := Suc (rdn w1)\<rparr>) = PROGMEM then 0 else 255)))"
proof (intro conjI allI impI)
  let ?T = "\<lambda>w. trace w @ main_init_events @
                    write_frame spi0 17 CommandReg SoftReset @ [SleepMs 50] @
                    read_frame spi0 17 (0x80 OR VersionReg) (miso w (rdn w)) @
                    [Printf (''Version: %x'' @ nl_cr) [uint (miso w (rdn w))]]"
  let ?W = "\<lambda>w. w\<lparr>rdn := Suc (rdn w), trace := ?T w\<rparr>"
  have r: "rdn (?W w2) = rdn (?W w1)" using assms(1) by simp
  have m: "\<forall>n\<ge>rdn (?W w2). miso (?W w2) n = miso (?W w1) n"
    using assms by auto
  show "map_option fst (main_to_idle w2) = map_option fst (main_to_idle w1)"
    by (simp only: main_result_self_test self_test_result_cong [OF r m])
  fix r w'
  assume a: "main_to_idle w1 = Some (r, w')"
  then obtain w2' where st: "self_test 17 18 19 16 (?W w1) = Some (r, w2')"
    and w': "w' = w2'\<lparr>trace := trace w2' @ [Printf (''Test Result: %d'' @ nl_cr) [uint r]]\<rparr>"
    unfolding main_to_idle_eq [of w1] by (auto split: option.splits)
  from st obtain k where k: "\<forall>i<k. miso (?W w1) (rdn (?W w1) + i) < 64"
      "64 \<le> miso (?W w1) (rdn (?W w1) + k)"
    and rk: "r = self_test_compare 0 (drained k (?W w1))"
    and w2': "w2' = (?W w1)\<lparr>trace := trace (?W w1) @ self_test_events 17 k (?W w1),
                              rdn := rdn (?W w1) + k + 65\<rparr>"
    unfolding self_test_Some_iff by blast
  show "Printf (''Version: %x'' @ nl_cr) [uint (miso w1 (rdn w1))] \<in> set (trace w')"
    by (simp add: w' w2')
  have d: "drained k (?W w1) = drained k (w1\<lparr>rdn := Suc (rdn w1)\<rparr>)"
    by (simp add: drained_def del: upt_rec_numeral)
  from rk have "r = (if drained k (w1\<lparr>rdn := Suc (rdn w1)\<rparr>) = PROGMEM then 0 else 255)"
    by (simp only: d self_test_compare_verdict [OF length_drained])
  moreover from k have "\<forall>i<k. miso w1 (Suc (rdn w1) + i) < 64" and "64 \<le> miso w1 (Suc (rdn w1) + k)"
    by simp_all
  ultimately show "\<exists>k. (\<forall>i<k. miso w1 (Suc (rdn w1) + i) < 64) \<and> 64 \<le> miso w1 (Suc (rdn w1) + k) \<and>
      r = (if drained k (w1\<lparr>rdn := Suc (rdn w1)\<rparr>) = PROGMEM then 0 else 255)"
    by blast
qed

theorem version_independent_witness:
  "map_option fst (main_to_idle (device (0x92 # 0x3F # 0x40 # PROGMEM))) = Some 0 \<and>
   map_option fst (main_to_idle (device (0x91 # 0x3F # 0x40 # PROGMEM))) = Some 0"
proof -
  let ?d1 = "device (0x92 # 0x3F # 0x40 # PROGMEM)"
  let ?d2 = "device (0x91 # 0x3F # 0x40 # PROGMEM)"
  have a: "\<forall>i<1. miso ?d1 (Suc (rdn ?d1) + i) < 64" by (simp add: device_simps)
  have b: "64 \<le> miso ?d1 (Suc (rdn ?d1) + 1)" by (simp add: device_simps)
  have "drained 1 (?d1\<lparr>rdn := Suc (rdn ?d1)\<rparr>) = PROGMEM"
  proof (rule nth_equalityI)
    show "length (drained 1 (?d1\<lparr>rdn := Suc (rdn ?d1)\<rparr>)) = length PROGMEM"
      by (simp add: length_drained length_PROGMEM)
  next
    fix j
    assume "j < length (drained 1 (?d1\<lparr>rdn := Suc (rdn ?d1)\<rparr>))"
    then have "j < 64" by (simp add: length_drained)
    then show "drained 1 (?d1\<lparr>rdn := Suc (rdn ?d1)\<rparr>) ! j = PROGMEM ! j"
      by (simp add: drained_def device_simps length_PROGMEM del: upt_rec_numeral)
  qed
  with main_result [OF a b] have 1: "map_option fst (main_to_idle ?d1) = Some 0"
    by (simp only: if_True simp_thms)
  have r: "rdn ?d2 = rdn ?d1" by (simp add: device_simps)
  have m: "\<forall>n. n \<noteq> rdn ?d1 \<longrightarrow> miso ?d2 n = miso ?d1 n"
    by (auto simp add: device_simps nth_Cons split: nat.split)
  from version_independent [OF r m] 1
  have "map_option fst (main_to_idle ?d2) = Some 0" by simp
  with 1 show ?thesis by simp
qed


section \<open>The chip-select discipline\<close>

lemma cs_run_append:
  "cs_run cs ph (xs @ ys) = (case cs_run cs ph xs of None \<Rightarrow> None | Some ph' \<Rightarrow> cs_run cs ph' ys)"
  by (induction xs arbitrary: ph) (simp_all split: option.split)

lemma cs_run_Idle_append:
  "cs_run cs Idle xs = Some Idle \<Longrightarrow> cs_run cs Idle (xs @ ys) = cs_run cs Idle ys"
  by (simp add: cs_run_append)

lemma cs_run_write_frame: "cs_run cs Idle (write_frame spi cs h d) = Some Idle"
  by (simp add: write_frame_def)

lemma cs_run_read_frame: "cs_run cs Idle (read_frame spi cs h b) = Some Idle"
  by (simp add: read_frame_def)

lemma cs_run_concat:
  "(\<And>x. x \<in> set xs \<Longrightarrow> cs_run cs Idle (f x) = Some Idle) \<Longrightarrow>
   cs_run cs Idle (concat (map f xs)) = Some Idle"
  by (induction xs) (simp_all add: cs_run_Idle_append)

lemma cs_run_replicate:
  "cs_run cs Idle xs = Some Idle \<Longrightarrow> cs_run cs Idle (concat (replicate n xs)) = Some Idle"
  by (induction n) (simp_all add: cs_run_Idle_append)

lemma cs_run_Printf: "cs_run cs Idle (Printf fmt args # es) = cs_run cs Idle es"
  by simp

lemma cs_run_SleepMs: "cs_run cs Idle (SleepMs ms # es) = cs_run cs Idle es"
  by simp

lemma cs_run_arm_events: "cs_run cs Idle (arm_events cs) = Some Idle"
  by (simp add: arm_events_def cs_run_Idle_append cs_run_write_frame cs_run_replicate
      del: cs_run.simps add: cs_run_Printf cs_run_SleepMs cs_run.simps(1))

lemma cs_run_self_test_events: "cs_run cs Idle (self_test_events cs k w) = Some Idle"
  by (simp add: self_test_events_def cs_run_Idle_append cs_run_write_frame cs_run_read_frame
      cs_run_arm_events cs_run_concat
      del: cs_run.simps upt_Suc upt_rec_numeral add: cs_run_Printf cs_run_SleepMs cs_run.simps(1))

lemma cs_run_selected:
  "cs_run cs ph es = Some ph' \<Longrightarrow> selected_transfers cs (line_high ph) es"
proof (induction es arbitrary: ph)
  case Nil
  then show ?case by simp
next
  case (Cons e es)
  from Cons.prems obtain ph1 where s: "cs_step cs ph e = Some ph1" and r: "cs_run cs ph1 es = Some ph'"
    by (auto split: option.splits)
  from Cons.IH [OF r] have ih: "selected_transfers cs (line_high ph1) es" .
  from s ih show ?case
    by (cases ph; cases e) (auto split: if_splits)
qed


lemma monitor_rejects:
  "cs_run cs Idle [SpiWrite spi [h, d]] = None"
  "cs_run cs Idle [Nop3, GpioPut cs False, SpiWrite spi [h, d]] = None"
  "cs_run cs Idle [Nop3, GpioPut cs False, Nop3, SpiWrite spi [h, d], GpioPut cs True] = None"
  "cs_run cs Idle [Nop3, GpioPut cs False, Nop3, Nop3, GpioPut cs True, Nop3] = None"
  "\<not> selected_transfers cs True [SpiWrite spi [h, d]]"
  "\<not> selected_transfers cs True (write_frame spi cs h d @ [SpiRead spi 0 [b]])"
  by (simp_all add: write_frame_def)

lemma selected_main_init_events:
  "selected_transfers 17 lvl (main_init_events @ es) = selected_transfers 17 True es"
  by (simp add: main_init_events_def LED_PIN_def RESET_PIN_def)

text \<open>
  C6.  Every register write and every register read is exactly one frame: delay, chip
  select low, delay, the transfers of the transaction, delay, chip select high, delay; no
  path through either function skips a delay or a toggle.  Hence in every run the events
  follow the chip-select discipline of the monitor \<open>cs_run\<close>, and no transfer happens
  while the line is high (\<open>selected_transfers\<close>): in a run of \<open>self_test\<close> that returns;
  in a run that does not return, after any number \<open>n\<close> of passes of the wait loop
  (\<open>self_test_armed\<close> and \<open>polls_Suc\<close> relate \<open>polls\<close> and \<open>arm_events\<close> to the code);
  and in \<open>main\<close>, after its set-up, which transfers nothing and drives the line high.
\<close>

theorem chip_select_brackets:
  "reg_write spi cs reg d w =
     w\<lparr>trace := trace w @
          [Nop3, GpioPut cs False, Nop3, SpiWrite spi [reg, d], Nop3, GpioPut cs True, Nop3]\<rparr> \<and>
   reg_read spi cs reg buf w =
     (miso w (rdn w),
      w\<lparr>trace := trace w @
           [Nop3, GpioPut cs False, Nop3, SpiWrite spi [0x80 OR reg], SpiRead spi 0 [miso w (rdn w)],
            Nop3, GpioPut cs True, Nop3],
        rdn := Suc (rdn w)\<rparr>) \<and>
   (self_test cs sck mosi misop w = Some (r, w') \<longrightarrow>
      (\<exists>es. trace w' = trace w @ es \<and> cs_run cs Idle es = Some Idle \<and>
            selected_transfers cs True es)) \<and>
   (\<exists>es. trace (polls n cs (w\<lparr>trace := trace w @ arm_events cs\<rparr>)) = trace w @ es \<and>
         cs_run cs Idle es = Some Idle \<and> selected_transfers cs True es) \<and>
   (main_to_idle w = Some (r, w') \<longrightarrow>
      (\<exists>es. trace w' = trace w @ main_init_events @ es \<and> transfers main_init_events = [] \<and>
            cs_run 17 Idle es = Some Idle \<and> selected_transfers 17 lvl (main_init_events @ es)))"
proof (intro conjI impI)
  show "reg_write spi cs reg d w =
     w\<lparr>trace := trace w @
          [Nop3, GpioPut cs False, Nop3, SpiWrite spi [reg, d], Nop3, GpioPut cs True, Nop3]\<rparr>"
    by (simp add: reg_write_eq write_frame_def)
  show "reg_read spi cs reg buf w =
     (miso w (rdn w),
      w\<lparr>trace := trace w @
           [Nop3, GpioPut cs False, Nop3, SpiWrite spi [0x80 OR reg], SpiRead spi 0 [miso w (rdn w)],
            Nop3, GpioPut cs True, Nop3],
        rdn := Suc (rdn w)\<rparr>)"
    by (simp add: reg_read_eq read_frame_def)
next
  assume "self_test cs sck mosi misop w = Some (r, w')"
  then obtain k where "trace w' = trace w @ self_test_events cs k w"
    unfolding self_test_Some_iff by auto
  moreover note c = cs_run_self_test_events [of cs k w]
  moreover from cs_run_selected [OF c] have "selected_transfers cs True (self_test_events cs k w)"
    by simp
  ultimately show "\<exists>es. trace w' = trace w @ es \<and> cs_run cs Idle es = Some Idle \<and>
            selected_transfers cs True es"
    by blast
next
  let ?es = "arm_events cs @
     concat (map (\<lambda>i. read_frame spi0 cs (0x80 OR FIFOLevelReg) (miso w (rdn w + i))) [0..<n])"
  have t: "trace (polls n cs (w\<lparr>trace := trace w @ arm_events cs\<rparr>)) = trace w @ ?es"
    by (simp add: polls_def)
  have c: "cs_run cs Idle ?es = Some Idle"
    by (simp add: cs_run_Idle_append cs_run_arm_events cs_run_concat cs_run_read_frame)
  from cs_run_selected [OF c] have "selected_transfers cs True ?es" by simp
  with t c show "\<exists>es. trace (polls n cs (w\<lparr>trace := trace w @ arm_events cs\<rparr>)) = trace w @ es \<and>
         cs_run cs Idle es = Some Idle \<and> selected_transfers cs True es"
    by blast
next
  let ?W = "w\<lparr>rdn := Suc (rdn w),
                trace := trace w @ main_init_events @
                    write_frame spi0 17 CommandReg SoftReset @ [SleepMs 50] @
                    read_frame spi0 17 (0x80 OR VersionReg) (miso w (rdn w)) @
                    [Printf (''Version: %x'' @ nl_cr) [uint (miso w (rdn w))]]\<rparr>"
  assume "main_to_idle w = Some (r, w')"
  then obtain w2 where st: "self_test 17 18 19 16 ?W = Some (r, w2)"
    and w': "w' = w2\<lparr>trace := trace w2 @ [Printf (''Test Result: %d'' @ nl_cr) [uint r]]\<rparr>"
    unfolding main_to_idle_eq [of w] by (auto split: option.splits)
  from st obtain k where w2: "trace w2 = trace ?W @ self_test_events 17 k ?W"
    unfolding self_test_Some_iff by auto
  let ?es = "write_frame spi0 17 CommandReg SoftReset @ [SleepMs 50] @
             read_frame spi0 17 (0x80 OR VersionReg) (miso w (rdn w)) @
             [Printf (''Version: %x'' @ nl_cr) [uint (miso w (rdn w))]] @
             self_test_events 17 k ?W @ [Printf (''Test Result: %d'' @ nl_cr) [uint r]]"
  have t: "trace w' = trace w @ main_init_events @ ?es"
    by (simp add: w' w2)
  have c: "cs_run 17 Idle ?es = Some Idle"
    by (simp add: cs_run_Idle_append cs_run_write_frame cs_run_read_frame
        cs_run_self_test_events
        del: cs_run.simps add: cs_run_Printf cs_run_SleepMs cs_run.simps(1))
  from cs_run_selected [OF c] have "selected_transfers 17 lvl (main_init_events @ ?es)"
    by (simp only: selected_main_init_events line_high.simps)
  moreover have "transfers main_init_events = []"
    by (simp add: main_init_events_def transfers_def)
  ultimately show "\<exists>es. trace w' = trace w @ main_init_events @ es \<and>
            transfers main_init_events = [] \<and>
            cs_run 17 Idle es = Some Idle \<and> selected_transfers 17 lvl (main_init_events @ es)"
    using t c by blast
qed

theorem chip_select_brackets_witness:
  "\<exists>r w'. self_test 17 18 19 16 (device [0x3F, 0x40]) = Some (r, w') \<and>
     cs_run 17 Idle (trace w') = Some Idle \<and> selected_transfers 17 True (trace w')"
proof -
  let ?d = "device [0x3F, 0x40]"
  obtain r w' where st: "self_test 17 18 19 16 ?d = Some (r, w')"
    using self_test_device_run [of "[]"] by blast
  from chip_select_brackets [of spi0 17 0 0 ?d 0 18 19 16 r w' 0 True] st
  obtain es where "trace w' = trace ?d @ es" "cs_run 17 Idle es = Some Idle"
    "selected_transfers 17 True es"
    by blast
  then have "cs_run 17 Idle (trace w') = Some Idle \<and> selected_transfers 17 True (trace w')"
    by (simp add: device_simps)
  with st show ?thesis by blast
qed


end
